theory Spec2Isabelle
  imports Main
begin

section \<open>Python values\<close>

text \<open>
  The script \<^verbatim>\<open>scripts/echo_provider.py\<close> reads standard input, decodes it with
  \<^verbatim>\<open>json.loads\<close>, looks the key \<^verbatim>\<open>'prompt'\<close> up with \<^verbatim>\<open>dict.get\<close>, and prints
  \<^verbatim>\<open>json.dumps({'output': prompt})\<close>.

  A Python \<^verbatim>\<open>str\<close> is a sequence of code points (\<^verbatim>\<open>ord(c)\<close> in \<^verbatim>\<open>range(0x110000)\<close>,
  lone surrogates included), so a string is a list of naturals, not a list of bytes.
  \<open>ustr\<close> turns an ASCII literal of this text into such a string.
\<close>

type_synonym pystr = "nat list"

definition ustr :: "string \<Rightarrow> pystr" where
  "ustr s = map of_char s"

text \<open>
  The values \<^verbatim>\<open>json.loads\<close> builds: \<^verbatim>\<open>None\<close>, \<^verbatim>\<open>True\<close>/\<^verbatim>\<open>False\<close>, \<^verbatim>\<open>int\<close>
  (unbounded), \<^verbatim>\<open>float\<close>, \<^verbatim>\<open>str\<close>, \<^verbatim>\<open>list\<close> and \<^verbatim>\<open>dict\<close> with \<^verbatim>\<open>str\<close> keys.
  The type \<open>'f\<close> stands for Python's \<^verbatim>\<open>float\<close>; the two operations on floats that
  the program reaches, \<^verbatim>\<open>float(text)\<close> and the encoder's \<^verbatim>\<open>floatstr\<close>, are parameters
  \<open>parse_float\<close> and \<open>floatstr\<close> of the functions below.
  A \<^verbatim>\<open>dict\<close> keeps insertion order and has no duplicate key: an association list
  built with \<open>dict_setitem\<close> only.
\<close>

datatype 'f json =
    JNone
  | JBool bool
  | JInt int
  | JFloat 'f
  | JStr pystr
  | JList "'f json list"
  | JDict "(pystr \<times> 'f json) list"

datatype py_error = JSONDecodeError | AttributeError

text \<open>\<^verbatim>\<open>d[k] = v\<close>: an existing key keeps its position and takes the new value,
  a new key goes to the end.\<close>

fun dict_setitem :: "('k \<times> 'v) list \<Rightarrow> 'k \<Rightarrow> 'v \<Rightarrow> ('k \<times> 'v) list" where
  "dict_setitem [] k v = [(k, v)]"
| "dict_setitem ((k', v') # d) k v =
     (if k' = k then (k, v) # d else (k', v') # dict_setitem d k v)"

text \<open>\<^verbatim>\<open>dict(pairs)\<close>.\<close>

definition dict_of_pairs :: "('k \<times> 'v) list \<Rightarrow> ('k \<times> 'v) list" where
  "dict_of_pairs pairs = foldl (\<lambda>d (k, v). dict_setitem d k v) [] pairs"

text \<open>
  \<^verbatim>\<open>obj.get(key, default)\<close>. Only a \<^verbatim>\<open>dict\<close> has the method; on every other value
  json.loads returns, the attribute lookup raises \<^verbatim>\<open>AttributeError\<close>.
\<close>

fun get_method :: "'f json \<Rightarrow> pystr \<Rightarrow> 'f json \<Rightarrow> py_error + 'f json" where
  "get_method (JDict d) key dflt =
     Inr (case map_of d key of Some v \<Rightarrow> v | None \<Rightarrow> dflt)"
| "get_method JNone key dflt = Inl AttributeError"
| "get_method (JBool b) key dflt = Inl AttributeError"
| "get_method (JInt i) key dflt = Inl AttributeError"
| "get_method (JFloat x) key dflt = Inl AttributeError"
| "get_method (JStr s) key dflt = Inl AttributeError"
| "get_method (JList xs) key dflt = Inl AttributeError"

section \<open>json.dumps\<close>

text \<open>
  \<^verbatim>\<open>json.dumps(obj)\<close> with no keyword argument is \<^verbatim>\<open>JSONEncoder().encode(obj)\<close> with
  \<^verbatim>\<open>ensure_ascii=True\<close>, \<^verbatim>\<open>allow_nan=True\<close>, \<^verbatim>\<open>indent=None\<close> and the separators
  \<^verbatim>\<open>', '\<close> and \<^verbatim>\<open>': '\<close>.
\<close>

definition hexdigit :: "nat \<Rightarrow> nat" where
  "hexdigit d = (if d < 10 then 48 + d else 87 + d)"

function hex_digits :: "nat \<Rightarrow> pystr" where
  "hex_digits n =
     (if n < 16 then [hexdigit n] else hex_digits (n div 16) @ [hexdigit (n mod 16)])"
  by pat_completeness auto
termination
  by (relation "measure id") auto

declare hex_digits.simps [simp del]

text \<open>\<^verbatim>\<open>'{0:04x}'.format(n)\<close>: lower-case hexadecimal, padded with zeros to four digits.\<close>

definition format_04x :: "nat \<Rightarrow> pystr" where
  "format_04x n = replicate (4 - length (hex_digits n)) 48 @ hex_digits n"

text \<open>
  \<^verbatim>\<open>ESCAPE_ASCII = re.compile(r'([\\"]|[^\ -~])')\<close>: the characters that
  \<^verbatim>\<open>py_encode_basestring_ascii\<close> replaces.
\<close>

definition ESCAPE_ASCII :: "nat \<Rightarrow> bool" where
  "ESCAPE_ASCII c = (c = 92 \<or> c = 34 \<or> \<not> (32 \<le> c \<and> c \<le> 126))"

text \<open>
  \<^verbatim>\<open>ESCAPE_DCT\<close>: the two-character escapes, then
  \<^verbatim>\<open>for i in range(0x20): ESCAPE_DCT.setdefault(chr(i), '\\u{0:04x}'.format(i))\<close>.
\<close>

definition ESCAPE_DCT :: "nat \<Rightarrow> pystr option" where
  "ESCAPE_DCT c =
     (if c = 92 then Some [92, 92]
      else if c = 34 then Some [92, 34]
      else if c = 8 then Some [92, of_char CHR ''b'']
      else if c = 12 then Some [92, of_char CHR ''f'']
      else if c = 10 then Some [92, of_char CHR ''n'']
      else if c = 13 then Some [92, of_char CHR ''r'']
      else if c = 9 then Some [92, of_char CHR ''t'']
      else if c < 0x20 then Some ([92, of_char CHR ''u''] @ format_04x c)
      else None)"

text \<open>The function \<^verbatim>\<open>replace(match)\<close> inside \<^verbatim>\<open>py_encode_basestring_ascii\<close>.\<close>

definition replace :: "nat \<Rightarrow> pystr" where
  "replace c =
     (case ESCAPE_DCT c of
        Some r \<Rightarrow> r
      | None \<Rightarrow>
          (if c < 0x10000 then [92, of_char CHR ''u''] @ format_04x c
           else
             (let n = c - 0x10000;
                  s1 = or 0xd800 (and (drop_bit 10 n) 0x3ff);
                  s2 = or 0xdc00 (and n 0x3ff)
              in [92, of_char CHR ''u''] @ format_04x s1 @
                 [92, of_char CHR ''u''] @ format_04x s2)))"

definition py_encode_basestring_ascii :: "pystr \<Rightarrow> pystr" where
  "py_encode_basestring_ascii s =
     [34] @ concat (map (\<lambda>c. if ESCAPE_ASCII c then replace c else [c]) s) @ [34]"

text \<open>\<^verbatim>\<open>int.__repr__\<close>: decimal digits, with a minus sign for a negative number.\<close>

function decimal_digits :: "nat \<Rightarrow> pystr" where
  "decimal_digits n =
     (if n < 10 then [48 + n] else decimal_digits (n div 10) @ [48 + n mod 10])"
  by pat_completeness auto
termination
  by (relation "measure id") auto

declare decimal_digits.simps [simp del]

definition int_repr :: "int \<Rightarrow> pystr" where
  "int_repr i = (if i < 0 then 45 # decimal_digits (nat (- i)) else decimal_digits (nat i))"

text \<open>\<^verbatim>\<open>sep.join(parts)\<close>.\<close>

fun join :: "pystr \<Rightarrow> pystr list \<Rightarrow> pystr" where
  "join sep [] = []"
| "join sep [p] = p"
| "join sep (p # q # ps) = p @ sep @ join sep (q # ps)"

text \<open>
  The encoder. \<open>floatstr\<close> is the encoder's function of that name: \<^verbatim>\<open>float.__repr__\<close>,
  and \<^verbatim>\<open>NaN\<close>, \<^verbatim>\<open>Infinity\<close>, \<^verbatim>\<open>-Infinity\<close> for the three special values.
\<close>

fun encode :: "('f \<Rightarrow> pystr) \<Rightarrow> 'f json \<Rightarrow> pystr" where
  "encode floatstr JNone = ustr ''null''"
| "encode floatstr (JBool b) = (if b then ustr ''true'' else ustr ''false'')"
| "encode floatstr (JInt i) = int_repr i"
| "encode floatstr (JFloat x) = floatstr x"
| "encode floatstr (JStr s) = py_encode_basestring_ascii s"
| "encode floatstr (JList xs) =
     ustr ''['' @ join (ustr '', '') (map (encode floatstr) xs) @ ustr '']''"
| "encode floatstr (JDict d) =
     ustr ''{'' @
     join (ustr '', '')
       (map (\<lambda>kv. py_encode_basestring_ascii (fst kv) @ ustr '': '' @ encode floatstr (snd kv)) d) @
     ustr ''}''"

definition dumps :: "('f \<Rightarrow> pystr) \<Rightarrow> 'f json \<Rightarrow> pystr" where
  "dumps floatstr obj = encode floatstr obj"

section \<open>json.loads\<close>

text \<open>
  The decoder of the standard library (\<^verbatim>\<open>json/decoder.py\<close>, \<^verbatim>\<open>json/scanner.py\<close>).
  The source walks an index \<^verbatim>\<open>end\<close> through the string \<^verbatim>\<open>s\<close>; the model passes the
  text from \<^verbatim>\<open>end\<close> on, \<^verbatim>\<open>s[end:]\<close>, and returns the text that is left with the value.
  Every failure of the decoder reaches \<^verbatim>\<open>main\<close> as \<^verbatim>\<open>JSONDecodeError\<close>: the
  \<^verbatim>\<open>StopIteration\<close> of the scanner is caught and raised again as one by its callers.
  Two limits of the interpreter are outside the model: the recursion limit on deeply nested
  input and the limit on the number of digits of an \<^verbatim>\<open>int\<close> literal.
\<close>

text \<open>\<^verbatim>\<open>WHITESPACE = re.compile(r'[ \t\n\r]*')\<close>.\<close>

definition is_ws :: "nat \<Rightarrow> bool" where
  "is_ws c = (c = 32 \<or> c = 9 \<or> c = 10 \<or> c = 13)"

definition skip_ws :: "pystr \<Rightarrow> pystr" where
  "skip_ws s = dropWhile is_ws s"

subsection \<open>Strings\<close>

text \<open>\<^verbatim>\<open>BACKSLASH\<close>: the one-character escapes.\<close>

definition BACKSLASH :: "nat \<Rightarrow> nat option" where
  "BACKSLASH esc =
     (if esc = 34 then Some 34
      else if esc = 92 then Some 92
      else if esc = of_char CHR ''/'' then Some (of_char CHR ''/'')
      else if esc = of_char CHR ''b'' then Some 8
      else if esc = of_char CHR ''f'' then Some 12
      else if esc = of_char CHR ''n'' then Some 10
      else if esc = of_char CHR ''r'' then Some 13
      else if esc = of_char CHR ''t'' then Some 9
      else None)"

text \<open>One character of \<^verbatim>\<open>[0-9A-Fa-f]\<close> and its value.\<close>

definition hexval :: "nat \<Rightarrow> nat option" where
  "hexval c =
     (if 48 \<le> c \<and> c \<le> 57 then Some (c - 48)
      else if 65 \<le> c \<and> c \<le> 70 then Some (c - 55)
      else if 97 \<le> c \<and> c \<le> 102 then Some (c - 87)
      else None)"

text \<open>
  \<^verbatim>\<open>_decode_uXXXX(s, pos)\<close>, given the text after the \<^verbatim>\<open>u\<close>:
  \<^verbatim>\<open>HEXDIGITS = re.compile(r'[0-9A-Fa-f]{4}')\<close> must match, and the result is
  \<^verbatim>\<open>int(esc.group(), 16)\<close>. \<open>None\<close> is the \<^verbatim>\<open>JSONDecodeError\<close>.
\<close>

definition decode_uXXXX :: "pystr \<Rightarrow> nat option" where
  "decode_uXXXX s =
     (case map hexval (take 4 s) of
        [Some a, Some b, Some c, Some d] \<Rightarrow> Some (((a * 16 + b) * 16 + c) * 16 + d)
      | _ \<Rightarrow> None)"

text \<open>
  \<^verbatim>\<open>py_scanstring(s, end, strict=True)\<close>, called just after the opening quote. The loop
  of the source takes a run of plain characters and then a terminator; the model takes
  one character at a time, and \<open>chunks\<close> is the text collected so far.
\<close>

function py_scanstring :: "pystr \<Rightarrow> pystr \<Rightarrow> py_error + (pystr \<times> pystr)" where
  "py_scanstring chunks [] = Inl JSONDecodeError"
| "py_scanstring chunks (c # s) =
     (if c = 34 then Inr (chunks, s)
      else if c \<noteq> 92 then
        (if c < 0x20 then Inl JSONDecodeError else py_scanstring (chunks @ [c]) s)
      else
        (case s of
           [] \<Rightarrow> Inl JSONDecodeError
         | esc # s1 \<Rightarrow>
             (if esc \<noteq> of_char CHR ''u'' then
                (case BACKSLASH esc of
                   None \<Rightarrow> Inl JSONDecodeError
                 | Some ch \<Rightarrow> py_scanstring (chunks @ [ch]) s1)
              else
                (case decode_uXXXX s1 of
                   None \<Rightarrow> Inl JSONDecodeError
                 | Some uni \<Rightarrow>
                     (let s2 = drop 4 s1 in
                      if 0xd800 \<le> uni \<and> uni \<le> 0xdbff \<and> take 2 s2 = [92, of_char CHR ''u''] then
                        (case decode_uXXXX (drop 2 s2) of
                           None \<Rightarrow> Inl JSONDecodeError
                         | Some uni2 \<Rightarrow>
                             (if 0xdc00 \<le> uni2 \<and> uni2 \<le> 0xdfff then
                                py_scanstring
                                  (chunks @
                                   [0x10000 + or (push_bit 10 (uni - 0xd800)) (uni2 - 0xdc00)])
                                  (drop 6 s2)
                              else py_scanstring (chunks @ [uni]) s2))
                      else py_scanstring (chunks @ [uni]) s2)))))"
  by pat_completeness auto
termination
  by (relation "measure (\<lambda>(chunks, s). length s)") auto

declare py_scanstring.simps(2) [simp del]

subsection \<open>Numbers\<close>

text \<open>
  \<^verbatim>\<open>NUMBER_RE = re.compile(r'(-?(?:0|[1-9][0-9]*))(\.[0-9]+)?([eE][-+]?[0-9]+)?')\<close>.
  Each function returns the text of its group and the text after it; a group that does
  not take part in the match is the empty string, as \<^verbatim>\<open>frac or ''\<close> makes it.
\<close>

definition is_digit :: "nat \<Rightarrow> bool" where
  "is_digit c = (48 \<le> c \<and> c \<le> 57)"

definition match_integer :: "pystr \<Rightarrow> (pystr \<times> pystr) option" where
  "match_integer s =
     (let (sign, s1) = (case s of c # r \<Rightarrow> if c = 45 then ([45], r) else ([], s) | [] \<Rightarrow> ([], s))
      in case s1 of
           [] \<Rightarrow> None
         | c # r \<Rightarrow>
             (if c = 48 then Some (sign @ [c], r)
              else if 49 \<le> c \<and> c \<le> 57
                then Some (sign @ c # takeWhile is_digit r, dropWhile is_digit r)
              else None))"

definition match_frac :: "pystr \<Rightarrow> pystr \<times> pystr" where
  "match_frac s =
     (case s of
        c # r \<Rightarrow>
          (if c = 46 \<and> takeWhile is_digit r \<noteq> []
             then (c # takeWhile is_digit r, dropWhile is_digit r)
           else ([], s))
      | [] \<Rightarrow> ([], s))"

definition match_exp :: "pystr \<Rightarrow> pystr \<times> pystr" where
  "match_exp s =
     (case s of
        c # r \<Rightarrow>
          (if c = 101 \<or> c = 69 then
             (let (sign, r1) =
                    (case r of d # r' \<Rightarrow> if d = 45 \<or> d = 43 then ([d], r') else ([], r)
                     | [] \<Rightarrow> ([], r))
              in if takeWhile is_digit r1 \<noteq> []
                   then (c # sign @ takeWhile is_digit r1, dropWhile is_digit r1)
                 else ([], s))
           else ([], s))
      | [] \<Rightarrow> ([], s))"

definition match_number :: "pystr \<Rightarrow> (pystr \<times> pystr \<times> pystr \<times> pystr) option" where
  "match_number s =
     (case match_integer s of
        None \<Rightarrow> None
      | Some (integer, s1) \<Rightarrow>
          (let (frac, s2) = match_frac s1; (exp, s3) = match_exp s2
           in Some (integer, frac, exp, s3)))"

text \<open>\<^verbatim>\<open>int(text)\<close> on the text of the first group: an optional minus sign and digits.\<close>

definition digits_value :: "pystr \<Rightarrow> nat" where
  "digits_value ds = foldl (\<lambda>a d. 10 * a + (d - 48)) 0 ds"

definition parse_int :: "pystr \<Rightarrow> int" where
  "parse_int text =
     (case text of
        c # ds \<Rightarrow> if c = 45 then - int (digits_value ds) else int (digits_value text)
      | [] \<Rightarrow> 0)"

subsection \<open>The scanner\<close>

text \<open>
  \<^verbatim>\<open>_scan_once\<close> of \<^verbatim>\<open>py_make_scanner\<close>, with \<^verbatim>\<open>JSONObject\<close> and \<^verbatim>\<open>JSONArray\<close>
  of the decoder. \<open>object_loop\<close> and \<open>array_loop\<close> are the \<^verbatim>\<open>while True\<close> loops of the
  two; \<open>object_loop\<close> starts just after the opening quote of a key, with the pairs read
  so far. \<^verbatim>\<open>parse_constant\<close> is the table \<^verbatim>\<open>_CONSTANTS\<close>, whose three floats are what
  \<^verbatim>\<open>float\<close> returns on the same three names.
\<close>

function
  scan_once :: "(pystr \<Rightarrow> 'f) \<Rightarrow> pystr \<Rightarrow> py_error + ('f json \<times> pystr)" and
  JSONObject :: "(pystr \<Rightarrow> 'f) \<Rightarrow> pystr \<Rightarrow> py_error + ('f json \<times> pystr)" and
  object_loop ::
    "(pystr \<Rightarrow> 'f) \<Rightarrow> (pystr \<times> 'f json) list \<Rightarrow> pystr \<Rightarrow> py_error + ('f json \<times> pystr)" and
  JSONArray :: "(pystr \<Rightarrow> 'f) \<Rightarrow> pystr \<Rightarrow> py_error + ('f json \<times> pystr)" and
  array_loop :: "(pystr \<Rightarrow> 'f) \<Rightarrow> 'f json list \<Rightarrow> pystr \<Rightarrow> py_error + ('f json \<times> pystr)"
where
  "scan_once parse_float [] = Inl JSONDecodeError"
| "scan_once parse_float (nextchar # s) =
     (if nextchar = 34 then
        (case py_scanstring [] s of
           Inl e \<Rightarrow> Inl e
         | Inr (text, s1) \<Rightarrow> Inr (JStr text, s1))
      else if nextchar = of_char CHR ''{'' then JSONObject parse_float s
      else if nextchar = of_char CHR ''['' then JSONArray parse_float s
      else if nextchar = of_char CHR ''n'' \<and> take 4 (nextchar # s) = ustr ''null''
        then Inr (JNone, drop 4 (nextchar # s))
      else if nextchar = of_char CHR ''t'' \<and> take 4 (nextchar # s) = ustr ''true''
        then Inr (JBool True, drop 4 (nextchar # s))
      else if nextchar = of_char CHR ''f'' \<and> take 5 (nextchar # s) = ustr ''false''
        then Inr (JBool False, drop 5 (nextchar # s))
      else
        (case match_number (nextchar # s) of
           Some (integer, frac, exp, s1) \<Rightarrow>
             (if frac \<noteq> [] \<or> exp \<noteq> []
                then Inr (JFloat (parse_float (integer @ frac @ exp)), s1)
              else Inr (JInt (parse_int integer), s1))
         | None \<Rightarrow>
             (if nextchar = of_char CHR ''N'' \<and> take 3 (nextchar # s) = ustr ''NaN''
                then Inr (JFloat (parse_float (ustr ''NaN'')), drop 3 (nextchar # s))
              else if nextchar = of_char CHR ''I'' \<and> take 8 (nextchar # s) = ustr ''Infinity''
                then Inr (JFloat (parse_float (ustr ''Infinity'')), drop 8 (nextchar # s))
              else if nextchar = 45 \<and> take 9 (nextchar # s) = ustr ''-Infinity''
                then Inr (JFloat (parse_float (ustr ''-Infinity'')), drop 9 (nextchar # s))
              else Inl JSONDecodeError)))"
| "JSONObject parse_float s =
     (case skip_ws s of
        [] \<Rightarrow> Inl JSONDecodeError
      | nextchar # s1 \<Rightarrow>
          (if nextchar = of_char CHR ''}'' then Inr (JDict [], s1)
           else if nextchar \<noteq> 34 then Inl JSONDecodeError
           else object_loop parse_float [] s1))"
| "object_loop parse_float pairs s =
     (case py_scanstring [] s of
        Inl e \<Rightarrow> Inl e
      | Inr (key, s1) \<Rightarrow>
          (case skip_ws s1 of
             [] \<Rightarrow> Inl JSONDecodeError
           | colon # s2 \<Rightarrow>
               (if colon \<noteq> of_char CHR '':'' then Inl JSONDecodeError
                else
                  (case scan_once parse_float (skip_ws s2) of
                     Inl e \<Rightarrow> Inl e
                   | Inr (v, s3) \<Rightarrow>
                       (case skip_ws s3 of
                          [] \<Rightarrow> Inl JSONDecodeError
                        | nextchar # s4 \<Rightarrow>
                            (if nextchar = of_char CHR ''}''
                               then Inr (JDict (dict_of_pairs (pairs @ [(key, v)])), s4)
                             else if nextchar \<noteq> of_char CHR '','' then Inl JSONDecodeError
                             else
                               (case skip_ws s4 of
                                  [] \<Rightarrow> Inl JSONDecodeError
                                | quote # s5 \<Rightarrow>
                                    (if quote \<noteq> 34 then Inl JSONDecodeError
                                     else object_loop parse_float (pairs @ [(key, v)]) s5))))))))"
| "JSONArray parse_float s =
     (case skip_ws s of
        [] \<Rightarrow> array_loop parse_float [] []
      | nextchar # s1 \<Rightarrow>
          (if nextchar = of_char CHR '']'' then Inr (JList [], s1)
           else array_loop parse_float [] (nextchar # s1)))"
| "array_loop parse_float vals s =
     (case scan_once parse_float s of
        Inl e \<Rightarrow> Inl e
      | Inr (v, s1) \<Rightarrow>
          (case skip_ws s1 of
             [] \<Rightarrow> Inl JSONDecodeError
           | nextchar # s2 \<Rightarrow>
               (if nextchar = of_char CHR '']'' then Inr (JList (vals @ [v]), s2)
                else if nextchar \<noteq> of_char CHR '','' then Inl JSONDecodeError
                else array_loop parse_float (vals @ [v]) (skip_ws s2))))"
  by pat_completeness auto

subsection \<open>The entry point\<close>

text \<open>
  \<^verbatim>\<open>json.loads(s)\<close> on a \<^verbatim>\<open>str\<close>: a leading byte order mark is refused, then
  \<^verbatim>\<open>JSONDecoder.decode\<close> skips white space, reads one value with \<^verbatim>\<open>raw_decode\<close>,
  skips white space again, and raises \<^verbatim>\<open>JSONDecodeError("Extra data")\<close> unless the text
  ends there.
\<close>

definition decode :: "(pystr \<Rightarrow> 'f) \<Rightarrow> pystr \<Rightarrow> py_error + 'f json" where
  "decode parse_float s =
     (case scan_once parse_float (skip_ws s) of
        Inl e \<Rightarrow> Inl e
      | Inr (obj, rest) \<Rightarrow> if skip_ws rest \<noteq> [] then Inl JSONDecodeError else Inr obj)"

definition loads :: "(pystr \<Rightarrow> 'f) \<Rightarrow> pystr \<Rightarrow> py_error + 'f json" where
  "loads parse_float s =
     (if take 1 s = [0xfeff] then Inl JSONDecodeError else decode parse_float s)"

section \<open>The program\<close>

text \<open>
  \<^verbatim>\<open>print(text)\<close> writes the text and a newline to standard output, given here as the
  text written so far.
\<close>

definition print :: "pystr \<Rightarrow> pystr \<Rightarrow> pystr" where
  "print text out = out @ text @ [10]"

text \<open>
  \<^verbatim>\<open>main()\<close>. The argument \<open>stdin\<close> is what \<^verbatim>\<open>sys.stdin.read()\<close> returns. The result
  is the exception that leaves \<^verbatim>\<open>main\<close>, if one does, and the text written to standard
  output.
\<close>

definition main ::
  "(pystr \<Rightarrow> 'f) \<Rightarrow> ('f \<Rightarrow> pystr) \<Rightarrow> pystr \<Rightarrow> py_error option \<times> pystr" where
  "main parse_float floatstr stdin =
     (case loads parse_float stdin of
        Inl e \<Rightarrow> (Some e, [])
      | Inr input_data \<Rightarrow>
          (case get_method input_data (ustr ''prompt'') (JStr []) of
             Inl e \<Rightarrow> (Some e, [])
           | Inr prompt \<Rightarrow>
               (let result = JDict [(ustr ''output'', prompt)]
                in (None, print (dumps floatstr result) []))))"

text \<open>
  The process: \<^verbatim>\<open>if __name__ == "__main__": main()\<close>. An exception that nothing catches
  ends the interpreter with exit status 1 (and a traceback on standard error); a run
  that reaches the end of the script exits with status 0.
\<close>

record process =
  stdout :: pystr
  exit_status :: nat

definition run :: "(pystr \<Rightarrow> 'f) \<Rightarrow> ('f \<Rightarrow> pystr) \<Rightarrow> pystr \<Rightarrow> process" where
  "run parse_float floatstr stdin =
     (case main parse_float floatstr stdin of
        (Some e, out) \<Rightarrow> \<lparr>stdout = out, exit_status = 1\<rparr>
      | (None, out) \<Rightarrow> \<lparr>stdout = out, exit_status = 0\<rparr>)"

section \<open>Floats\<close>






section \<open>The script, statement by statement\<close>

text \<open>
  The same script as a transition relation on configurations, so that what an execution
  can do is a relation and not a function by construction. A configuration holds the text
  written to standard output so far and the point the execution has reached, with the
  value of the variable that the next statement reads: before
  \<^verbatim>\<open>input_data = json.loads(sys.stdin.read())\<close> with the text on standard input, before
  \<^verbatim>\<open>prompt = input_data.get('prompt', '')\<close>, before \<^verbatim>\<open>result = {'output': prompt}\<close>,
  before \<^verbatim>\<open>print(json.dumps(result))\<close>, at the end of the script, and after the process
  has ended with an exit status.
\<close>

datatype 'f control =
    AtLoads pystr
  | AtGet "'f json"
  | AtResult "'f json"
  | AtPrint "'f json"
  | AtEnd
  | Exited nat

record 'f config =
  written :: pystr
  control :: "'f control"

text \<open>
  One rule for each way a statement can end: it completes, or it raises an exception,
  which nothing catches, so that the process ends with exit status 1.
\<close>

inductive step ::
  "(pystr \<Rightarrow> 'f) \<Rightarrow> ('f \<Rightarrow> pystr) \<Rightarrow> 'f config \<Rightarrow> 'f config \<Rightarrow> bool"
  for parse_float :: "pystr \<Rightarrow> 'f" and floatstr :: "'f \<Rightarrow> pystr"
where
  loads_returns:
    "loads parse_float stdin = Inr input_data \<Longrightarrow>
     step parse_float floatstr \<lparr>written = out, control = AtLoads stdin\<rparr>
       \<lparr>written = out, control = AtGet input_data\<rparr>"
| loads_raises:
    "loads parse_float stdin = Inl e \<Longrightarrow>
     step parse_float floatstr \<lparr>written = out, control = AtLoads stdin\<rparr>
       \<lparr>written = out, control = Exited 1\<rparr>"
| get_returns:
    "get_method input_data (ustr ''prompt'') (JStr []) = Inr prompt \<Longrightarrow>
     step parse_float floatstr \<lparr>written = out, control = AtGet input_data\<rparr>
       \<lparr>written = out, control = AtResult prompt\<rparr>"
| get_raises:
    "get_method input_data (ustr ''prompt'') (JStr []) = Inl e \<Longrightarrow>
     step parse_float floatstr \<lparr>written = out, control = AtGet input_data\<rparr>
       \<lparr>written = out, control = Exited 1\<rparr>"
| builds_result:
    "step parse_float floatstr \<lparr>written = out, control = AtResult prompt\<rparr>
       \<lparr>written = out, control = AtPrint (JDict [(ustr ''output'', prompt)])\<rparr>"
| prints:
    "step parse_float floatstr \<lparr>written = out, control = AtPrint result\<rparr>
       \<lparr>written = print (dumps floatstr result) out, control = AtEnd\<rparr>"
| ends:
    "step parse_float floatstr \<lparr>written = out, control = AtEnd\<rparr>
       \<lparr>written = out, control = Exited 0\<rparr>"

text \<open>A process starts with nothing written and the whole script before it.\<close>

definition initial :: "pystr \<Rightarrow> 'f config" where
  "initial stdin = \<lparr>written = [], control = AtLoads stdin\<rparr>"

definition exited :: "'f config \<Rightarrow> bool" where
  "exited c = (case control c of Exited status \<Rightarrow> True | _ \<Rightarrow> False)"

section \<open>JSON texts\<close>



text \<open>
  \<^verbatim>\<open>number = [ minus ] int [ frac ] [ exp ]\<close>, with
  \<^verbatim>\<open>int = zero / ( digit1-9 *DIGIT )\<close>, \<^verbatim>\<open>frac = decimal-point 1*DIGIT\<close> and
  \<^verbatim>\<open>exp = e [ minus / plus ] 1*DIGIT\<close>.
\<close>

definition rfc_digit :: "nat \<Rightarrow> bool" where
  "rfc_digit c = (0x30 \<le> c \<and> c \<le> 0x39)"

definition rfc_hexdig :: "nat \<Rightarrow> bool" where
  "rfc_hexdig c = (rfc_digit c \<or> 0x41 \<le> c \<and> c \<le> 0x46 \<or> 0x61 \<le> c \<and> c \<le> 0x66)"








text \<open>
  \<^verbatim>\<open>string = quotation-mark *char quotation-mark\<close>, from after the opening quotation
  mark on. A \<^verbatim>\<open>char\<close> is \<^verbatim>\<open>unescaped\<close>, any character from \<^verbatim>\<open>%x20\<close> on but the
  quotation mark and the backslash, or an escape: a backslash and one of
  the quotation mark, the backslash, the slash and \<^verbatim>\<open>b f n r t\<close>, or a backslash,
  \<^verbatim>\<open>u\<close> and \<^verbatim>\<open>4HEXDIG\<close>. The upper end of
  \<^verbatim>\<open>unescaped\<close>, \<^verbatim>\<open>%x10FFFF\<close>, is a condition on the whole text in \<open>rfc_json\<close> below.
\<close>

fun rfc_chars :: "pystr \<Rightarrow> pystr option" and rfc_escape :: "pystr \<Rightarrow> pystr option" where
  "rfc_chars [] = None"
| "rfc_chars (c # s) =
     (if c = 0x22 then Some s
      else if c = 0x5C then rfc_escape s
      else if 0x20 \<le> c then rfc_chars s
      else None)"
| "rfc_escape [] = None"
| "rfc_escape (e # s) =
     (if e = 0x22 \<or> e = 0x5C \<or> e = 0x2F \<or> e = 0x62 \<or> e = 0x66 \<or> e = 0x6E \<or> e = 0x72 \<or> e = 0x74
        then rfc_chars s
      else if e = 0x75 \<and> 4 \<le> length s \<and> list_all rfc_hexdig (take 4 s)
        then rfc_chars (drop 4 s)
      else None)"



section \<open>Texts that a JSON string literal can denote\<close>

text \<open>
  The hypotheses of the round-trip properties below. In a \<^verbatim>\<open>str\<close> every code point is
  below \<^verbatim>\<open>0x110000\<close>. JSON writes a character beyond \<^verbatim>\<open>0xFFFF\<close> as two escapes, a high
  surrogate and then a low one, so a text in which a high surrogate code point is itself
  followed by a low surrogate code point has no escaped form of its own: its escapes
  read as one character. \<open>unicode_text\<close> excludes these texts only; lone surrogates are
  allowed.
\<close>

fun unicode_text :: "pystr \<Rightarrow> bool" where
  "unicode_text [] = True"
| "unicode_text [c] = (c < 0x110000)"
| "unicode_text (c # d # s) =
     (c < 0x110000 \<and> \<not> (0xd800 \<le> c \<and> c \<le> 0xdbff \<and> 0xdc00 \<le> d \<and> d \<le> 0xdfff) \<and>
      unicode_text (d # s))"

text \<open>
  The characters that may stand for themselves between the quotes of a JSON string
  literal: anything but the quote, the backslash and the control characters.
\<close>

definition unescaped :: "nat \<Rightarrow> bool" where
  "unescaped c = (0x20 \<le> c \<and> c \<noteq> 34 \<and> c \<noteq> 92)"

text \<open>The printable ASCII characters, space to tilde.\<close>

definition printable :: "nat \<Rightarrow> bool" where
  "printable c = (32 \<le> c \<and> c \<le> 126)"

text \<open>
  The text after the escape of a lone high surrogate must not read as the second half
  of a pair.
\<close>

definition no_low_follows :: "pystr \<Rightarrow> bool" where
  "no_low_follows t =
     (take 2 t = [92, 117] \<longrightarrow>
        (case decode_uXXXX (drop 2 t) of
           None \<Rightarrow> False
         | Some u \<Rightarrow> \<not> (0xdc00 \<le> u \<and> u \<le> 0xdfff)))"

section \<open>Values that the encoder writes and the decoder reads back\<close>




section \<open>Termination of the scanner\<close>

text \<open>Each scanner returns less text than it was given.\<close>

lemma py_scanstring_length:
  "py_scanstring chunks s = Inr (t, r) \<Longrightarrow> length r < length s"
proof (induction chunks s arbitrary: t r rule: py_scanstring.induct)
  case (1 chunks)
  then show ?case by simp
next
  case (2 chunks c s)
  show ?case
    using "2.prems" "2.IH"
    by (auto simp: py_scanstring.simps(2) Let_def split: if_splits list.splits option.splits)
      fastforce+
qed

lemma skip_ws_length: "length (skip_ws s) \<le> length s"
  by (simp add: skip_ws_def length_dropWhile_le)

lemma skip_ws_Cons_length: "skip_ws s = c # r \<Longrightarrow> length r < length s"
  using skip_ws_length [of s] by simp

lemma match_integer_length: "match_integer s = Some (i, r) \<Longrightarrow> length r < length s"
  by (auto simp: match_integer_def Let_def le_imp_less_Suc length_dropWhile_le less_SucI
      split: list.splits if_splits)

lemma match_frac_length: "match_frac s = (f, r) \<Longrightarrow> length r \<le> length s"
  by (auto simp: match_frac_def le_SucI length_dropWhile_le split: list.splits if_splits)

lemma match_exp_length: "match_exp s = (e, r) \<Longrightarrow> length r \<le> length s"
  by (auto simp: match_exp_def Let_def le_SucI length_dropWhile_le split: list.splits if_splits)

lemma match_number_length: "match_number s = Some (i, f, e, r) \<Longrightarrow> length r < length s"
  by (auto simp: match_number_def Let_def split: option.splits prod.splits
      dest!: match_integer_length match_frac_length match_exp_length)


lemma scanner_length:
  "scan_once_JSONObject_object_loop_JSONArray_array_loop_dom (Inl (Inl (pf, s))) \<Longrightarrow>
     scan_once pf s = Inr (v, r) \<Longrightarrow> length r < length s"
  "scan_once_JSONObject_object_loop_JSONArray_array_loop_dom (Inl (Inr (pf, s))) \<Longrightarrow>
     JSONObject pf s = Inr (v, r) \<Longrightarrow> length r < length s"
  "scan_once_JSONObject_object_loop_JSONArray_array_loop_dom (Inr (Inl (pf, pairs, s))) \<Longrightarrow>
     object_loop pf pairs s = Inr (v, r) \<Longrightarrow> length r < length s"
  "scan_once_JSONObject_object_loop_JSONArray_array_loop_dom (Inr (Inr (Inl (pf, s)))) \<Longrightarrow>
     JSONArray pf s = Inr (v, r) \<Longrightarrow> length r < length s"
  "scan_once_JSONObject_object_loop_JSONArray_array_loop_dom (Inr (Inr (Inr (pf, vals, s)))) \<Longrightarrow>
     array_loop pf vals s = Inr (v, r) \<Longrightarrow> length r < length s"
proof (induct pf s and pf s and pf pairs s and pf s and pf vals s
    arbitrary: v r and v r and v r and v r and v r
    rule: scan_once_JSONObject_object_loop_JSONArray_array_loop.pinduct)
  case (1 parse_float)
  then show ?case by (simp add: scan_once.psimps)
next
  case (2 parse_float nextchar s)
  from "2.prems" "2.hyps"(1) show ?case
    apply (simp add: scan_once.psimps split: if_splits sum.splits prod.splits option.splits)
    subgoal by (auto dest: py_scanstring_length)
    subgoal using "2.hyps"(2) by fastforce
    subgoal using "2.hyps"(3) by fastforce
    by (auto dest: match_number_length)
next
  case (3 parse_float s)
  from "3.prems" "3.hyps"(1) show ?case
    apply (simp add: JSONObject.psimps split: list.splits if_splits)
    subgoal by (auto dest: skip_ws_Cons_length)
    subgoal for c s1 using "3.hyps"(2) [of c s1 v r] skip_ws_Cons_length [of s c s1] by simp
    done
next
  case (4 parse_float pairs s)
  from "4.prems" "4.hyps"(1) obtain key s1 s2 v' s3 nextchar s4 where
    a: "py_scanstring [] s = Inr (key, s1)" and
    b: "skip_ws s1 = of_char CHR '':'' # s2" and
    c: "scan_once parse_float (skip_ws s2) = Inr (v', s3)" and
    d: "skip_ws s3 = nextchar # s4" and
    e: "nextchar = of_char CHR ''}'' \<and> r = s4 \<or>
        nextchar \<noteq> of_char CHR ''}'' \<and> nextchar = of_char CHR '','' \<and>
        (\<exists>s5. skip_ws s4 = 34 # s5 \<and>
           object_loop parse_float (pairs @ [(key, v')]) s5 = Inr (v, r))"
    by (auto simp: object_loop.psimps split: sum.splits prod.splits list.splits if_splits)
  have l1: "length s1 < length s" using a by (rule py_scanstring_length)
  have l2: "length s2 < length s1" using b by (rule skip_ws_Cons_length)
  have l3: "length s3 < length (skip_ws s2)"
    using "4.hyps"(2) [OF a refl b _ c] by simp
  have l3': "length s3 < length s2" using l3 skip_ws_length [of s2] by simp
  have l4: "length s4 < length s3" using d by (rule skip_ws_Cons_length)
  from e show ?case
  proof
    assume "nextchar = of_char CHR ''}'' \<and> r = s4"
    then show ?thesis using l1 l2 l3' l4 by simp
  next
    assume f: "nextchar \<noteq> of_char CHR ''}'' \<and> nextchar = of_char CHR '','' \<and>
        (\<exists>s5. skip_ws s4 = 34 # s5 \<and>
           object_loop parse_float (pairs @ [(key, v')]) s5 = Inr (v, r))"
    then obtain s5 where g: "skip_ws s4 = 34 # s5" and
      h: "object_loop parse_float (pairs @ [(key, v')]) s5 = Inr (v, r)" by blast
    have l5: "length s5 < length s4" using g by (rule skip_ws_Cons_length)
    have "length r < length s5"
      using "4.hyps"(3) [OF a refl b _ c refl d _ _ g _ h] f by simp
    then show ?thesis using l1 l2 l3' l4 l5 by simp
  qed
next
  case (5 parse_float s)
  from "5.prems" "5.hyps"(1) show ?case
    apply (simp add: JSONArray.psimps split: list.splits if_splits)
    subgoal using "5.hyps"(2) [of v r] by simp
    subgoal by (auto dest: skip_ws_Cons_length)
    subgoal for c s1 using "5.hyps"(3) [of c s1 v r] skip_ws_length [of s] by simp
    done
next
  case (6 parse_float vals s)
  from "6.prems" "6.hyps"(1) obtain v' s1 nextchar s2 where
    c: "scan_once parse_float s = Inr (v', s1)" and
    d: "skip_ws s1 = nextchar # s2" and
    e: "nextchar = of_char CHR '']'' \<and> r = s2 \<or>
        nextchar \<noteq> of_char CHR '']'' \<and> nextchar = of_char CHR '','' \<and>
        array_loop parse_float (vals @ [v']) (skip_ws s2) = Inr (v, r)"
    by (auto simp: array_loop.psimps split: sum.splits prod.splits list.splits if_splits)
  have l1: "length s1 < length s" using "6.hyps"(2) [OF c] .
  have l2: "length s2 < length s1" using d by (rule skip_ws_Cons_length)
  from e show ?case
  proof
    assume "nextchar = of_char CHR '']'' \<and> r = s2"
    then show ?thesis using l1 l2 by simp
  next
    assume f: "nextchar \<noteq> of_char CHR '']'' \<and> nextchar = of_char CHR '','' \<and>
        array_loop parse_float (vals @ [v']) (skip_ws s2) = Inr (v, r)"
    have "length r < length (skip_ws s2)"
      using "6.hyps"(3) [OF c refl d] f by simp
    then show ?thesis using l1 l2 skip_ws_length [of s2] by simp
  qed
qed

termination scan_once
proof (relation "measure (\<lambda>x. case x of
      Inl (Inl (pf, s)) \<Rightarrow> 3 * length s
    | Inl (Inr (pf, s)) \<Rightarrow> 3 * length s + 2
    | Inr (Inl (pf, pairs, s)) \<Rightarrow> 3 * length s + 1
    | Inr (Inr (Inl (pf, s))) \<Rightarrow> 3 * length s + 2
    | Inr (Inr (Inr (pf, vals, s))) \<Rightarrow> 3 * length s + 1)", goal_cases)
  case 1
  then show ?case by simp
next
  case (2 parse_float nextchar s)
  then show ?case by simp
next
  case (3 parse_float nextchar s)
  then show ?case by simp
next
  case (4 parse_float s x21 x22)
  then show ?case using skip_ws_Cons_length [of s x21 x22] by simp
next
  case (5 parse_float pairs s b x y x21 x22)
  then show ?case
    using py_scanstring_length [of "[]" s x y] skip_ws_Cons_length [of y x21 x22]
      skip_ws_length [of x22] by simp
next
  case (6 parse_float pairs s b x y x21 x22 ba xa ya x21a x22a x21b x22b)
  then show ?case
    using py_scanstring_length [of "[]" s x y] skip_ws_Cons_length [of y x21 x22]
      skip_ws_length [of x22] scanner_length(1) [of parse_float "skip_ws x22" xa ya]
      skip_ws_Cons_length [of ya x21a x22a] skip_ws_Cons_length [of x22a x21b x22b]
    by simp
next
  case (7 parse_float s)
  then show ?case by simp
next
  case (8 parse_float s x21 x22)
  then show ?case using skip_ws_length [of s] by simp
next
  case (9 parse_float vals s)
  then show ?case by simp
next
  case (10 parse_float vals s b x y x21 x22)
  then show ?case
    using scanner_length(1) [of parse_float s x y] skip_ws_Cons_length [of y x21 x22]
      skip_ws_length [of x22] by simp
qed

declare scan_once.simps(2) [simp del] JSONObject.simps [simp del] object_loop.simps [simp del]
  JSONArray.simps [simp del] array_loop.simps [simp del]

section \<open>Looking a key up in a decoded object\<close>

text \<open>When the text of an object repeats a key, the last value is the one a lookup finds.\<close>

lemma map_of_dict_setitem: "map_of (dict_setitem d k v) = (map_of d)(k \<mapsto> v)"
  by (induction d k v rule: dict_setitem.induct) (auto simp: fun_eq_iff)

lemma map_of_foldl_setitem:
  "map_of (foldl (\<lambda>d (k, v). dict_setitem d k v) d0 pairs) = map_of d0 ++ map_of (rev pairs)"
proof (induction pairs arbitrary: d0)
  case Nil
  show ?case by simp
next
  case (Cons p pairs)
  obtain k v where p: "p = (k, v)" by (cases p)
  have "map_of d0 ++ map_of (rev pairs) ++ [k \<mapsto> v] =
      (map_of d0)(k \<mapsto> v) ++ map_of (rev pairs) ++ [k \<mapsto> v]"
    by (auto simp: fun_eq_iff map_add_def split: option.splits)
  then show ?case using Cons [of "dict_setitem d0 k v"]
    by (simp add: p map_of_dict_setitem) (auto simp: fun_eq_iff map_add_def split: option.splits)
qed

lemma map_of_dict_of_pairs: "map_of (dict_of_pairs pairs) = map_of (rev pairs)"
  by (simp add: dict_of_pairs_def map_of_foldl_setitem)

section \<open>Hexadecimal escapes and surrogate pairs\<close>

lemma or_push_bit_add:
  fixes a b :: nat
  assumes "b < 2 ^ n"
  shows "or (push_bit n a) b = push_bit n a + b"
proof -
  have "and (push_bit n a) (take_bit n b) = 0"
    by (rule bit_eqI) (auto simp: bit_simps)
  moreover have "take_bit n b = b" using assms by (rule take_bit_nat_eq_self)
  ultimately have "and (push_bit n a) b = 0" by simp
  then show ?thesis by (simp add: disjunctive_add_eq_or)
qed

lemma and_0x3ff: "and (x::nat) 0x3ff = x mod 1024"
proof -
  have "and x (mask 10) = x mod 2 ^ 10"
    by (simp only: take_bit_eq_mask [symmetric] take_bit_eq_mod)
  moreover have "mask 10 = (0x3ff::nat)" by (simp add: mask_eq_exp_minus_1)
  ultimately show ?thesis by simp
qed

lemma replicate_upto_3:
  "replicate 3 x = [x, x, x]" "replicate 2 x = [x, x]"
  by (simp_all add: numeral_3_eq_3 numeral_2_eq_2)

lemma high_surrogate:
  fixes n :: nat
  shows "or 0xd800 (and (drop_bit 10 n) 0x3ff) = 0xd800 + n div 1024 mod 1024"
proof -
  have "or (push_bit 10 54) (n div 1024 mod 1024) = push_bit 10 54 + n div 1024 mod 1024"
    by (rule or_push_bit_add) simp
  then show ?thesis by (simp add: and_0x3ff drop_bit_eq_div push_bit_eq_mult)
qed

lemma low_surrogate:
  fixes n :: nat
  shows "or 0xdc00 (and n 0x3ff) = 0xdc00 + n mod 1024"
proof -
  have "or (push_bit 10 55) (n mod 1024) = push_bit 10 55 + n mod 1024"
    by (rule or_push_bit_add) simp
  then show ?thesis by (simp add: and_0x3ff push_bit_eq_mult)
qed

lemma join_surrogates:
  fixes a b :: nat
  assumes "b < 1024"
  shows "or (push_bit 10 a) b = a * 1024 + b"
  using or_push_bit_add [of b 10 a] assms by (simp add: push_bit_eq_mult)

lemma hexval_hexdigit: "d < 16 \<Longrightarrow> hexval (hexdigit d) = Some d"
  by (simp add: hexval_def hexdigit_def)

lemma hex_digits_1: "n < 16 \<Longrightarrow> hex_digits n = [hexdigit n]"
  by (simp add: hex_digits.simps [of n])

lemma hex_digits_step:
  "16 \<le> n \<Longrightarrow> hex_digits n = hex_digits (n div 16) @ [hexdigit (n mod 16)]"
  by (simp add: hex_digits.simps [of n])

lemma hex_digits_2:
  assumes "16 \<le> n" and "n < 256"
  shows "hex_digits n = [hexdigit (n div 16), hexdigit (n mod 16)]"
proof -
  have "n div 16 < 16" using assms by simp
  then show ?thesis using assms by (simp add: hex_digits_step hex_digits_1)
qed

lemma hex_digits_3:
  assumes "256 \<le> n" and "n < 4096"
  shows "hex_digits n = [hexdigit (n div 256), hexdigit (n div 16 mod 16), hexdigit (n mod 16)]"
proof -
  have "16 \<le> n div 16" "n div 16 < 256" using assms by simp_all
  then have "hex_digits (n div 16) = [hexdigit (n div 16 div 16), hexdigit (n div 16 mod 16)]"
    by (rule hex_digits_2)
  moreover have "n div 16 div 16 = n div 256" by (simp add: div_mult2_eq [symmetric])
  ultimately show ?thesis using assms by (simp add: hex_digits_step)
qed

lemma hex_digits_4:
  assumes "4096 \<le> n" and "n < 65536"
  shows "hex_digits n =
    [hexdigit (n div 4096), hexdigit (n div 256 mod 16), hexdigit (n div 16 mod 16),
     hexdigit (n mod 16)]"
proof -
  have "256 \<le> n div 16" "n div 16 < 4096" using assms by simp_all
  then have "hex_digits (n div 16) =
      [hexdigit (n div 16 div 256), hexdigit (n div 16 div 16 mod 16), hexdigit (n div 16 mod 16)]"
    by (rule hex_digits_3)
  moreover have "n div 16 div 256 = n div 4096" "n div 16 div 16 = n div 256"
    by (simp_all add: div_mult2_eq [symmetric])
  ultimately show ?thesis using assms by (simp add: hex_digits_step)
qed

lemma format_04x_eq:
  assumes "n < 0x10000"
  shows "format_04x n =
    [hexdigit (n div 4096), hexdigit (n div 256 mod 16), hexdigit (n div 16 mod 16),
     hexdigit (n mod 16)]"
proof -
  have z: "hexdigit 0 = 48" by (simp add: hexdigit_def)
  consider "n < 16" | "16 \<le> n" "n < 256" | "256 \<le> n" "n < 4096" | "4096 \<le> n"
    by linarith
  then show ?thesis
  proof cases
    case 1
    then show ?thesis by (simp add: format_04x_def hex_digits_1 replicate_upto_3 z)
  next
    case 2
    then show ?thesis by (simp add: format_04x_def hex_digits_2 replicate_upto_3 z)
  next
    case 3
    then show ?thesis by (simp add: format_04x_def hex_digits_3 z)
  next
    case 4
    then show ?thesis using assms by (simp add: format_04x_def hex_digits_4)
  qed
qed

lemma decode_format_04x:
  assumes "n < 0x10000"
  shows "decode_uXXXX (format_04x n @ rest) = Some n"
proof -
  have "n div 4096 < 16" using assms by simp
  moreover have "((n div 4096 * 16 + n div 256 mod 16) * 16 + n div 16 mod 16) * 16 + n mod 16 = n"
  proof -
    have f1: "16 * (n div 16 mod 16) + n mod 16 = n mod 256"
      using mod_mult2_eq [of n 16 16] by simp
    have f2: "256 * (n div 256 mod 16) + n mod 256 = n mod 4096"
      using mod_mult2_eq [of n 256 16] by simp
    have f3: "4096 * (n div 4096) + n mod 4096 = n" by simp
    have "((n div 4096 * 16 + n div 256 mod 16) * 16 + n div 16 mod 16) * 16 + n mod 16 =
        4096 * (n div 4096) + (256 * (n div 256 mod 16) + (16 * (n div 16 mod 16) + n mod 16))"
      by simp
    also have "\<dots> = n" by (simp only: f1 f2 f3)
    finally show ?thesis .
  qed
  ultimately show ?thesis
    by (simp add: format_04x_eq [OF assms] decode_uXXXX_def hexval_hexdigit)
qed


section \<open>The string scanner reads back what the string encoder writes\<close>

lemma length_format_04x: "n < 0x10000 \<Longrightarrow> length (format_04x n) = 4"
  by (simp add: format_04x_eq)

lemma scan_plain:
  assumes "c \<noteq> 34" "c \<noteq> 92" "\<not> c < 0x20"
  shows "py_scanstring chunks (c # t) = py_scanstring (chunks @ [c]) t"
  using assms by (simp add: py_scanstring.simps(2))

lemma scan_backslash:
  assumes "BACKSLASH x = Some ch" "x \<noteq> 117"
  shows "py_scanstring chunks (92 # x # t) = py_scanstring (chunks @ [ch]) t"
  using assms by (simp add: py_scanstring.simps(2))

lemma scan_u_single:
  assumes "decode_uXXXX t4 = Some uni" and "drop 4 t4 = s2"
    and "\<not> (0xd800 \<le> uni \<and> uni \<le> 0xdbff \<and> take 2 s2 = [92, 117])"
  shows "py_scanstring chunks (92 # 117 # t4) = py_scanstring (chunks @ [uni]) s2"
  using assms by (auto simp: py_scanstring.simps(2) Let_def)

lemma scan_u_pair:
  assumes "decode_uXXXX t4 = Some uni" and "0xd800 \<le> uni" "uni \<le> 0xdbff"
    and "drop 4 t4 = 92 # 117 # s3"
    and "decode_uXXXX s3 = Some uni2" and "drop 4 s3 = s4"
  shows "py_scanstring chunks (92 # 117 # t4) =
    (if 0xdc00 \<le> uni2 \<and> uni2 \<le> 0xdfff
     then py_scanstring (chunks @ [0x10000 + or (push_bit 10 (uni - 0xd800)) (uni2 - 0xdc00)]) s4
     else py_scanstring (chunks @ [uni]) (92 # 117 # s3))"
  using assms by (simp add: py_scanstring.simps(2) Let_def)

lemma replace_two_char:
  assumes "ESCAPE_DCT c = Some r" and "\<not> c < 0x20 \<or> c \<in> {8, 9, 10, 12, 13}"
  shows "r = [92, r ! 1] \<and> r ! 1 \<noteq> 117 \<and> BACKSLASH (r ! 1) = Some c"
  using assms by (auto simp: ESCAPE_DCT_def BACKSLASH_def split: if_splits)

lemma scan_escaped_char:
  assumes "c < 0x110000"
    and "0xd800 \<le> c \<and> c \<le> 0xdbff \<longrightarrow> no_low_follows t"
  shows "py_scanstring chunks ((if ESCAPE_ASCII c then replace c else [c]) @ t) =
         py_scanstring (chunks @ [c]) t"
proof (cases "ESCAPE_ASCII c")
  case False
  then show ?thesis by (simp add: ESCAPE_ASCII_def scan_plain)
next
  case esc: True
  show ?thesis
  proof (cases "ESCAPE_DCT c")
    case (Some r)
    show ?thesis
    proof (cases "\<not> c < 0x20 \<or> c \<in> {8, 9, 10, 12, 13}")
      case True
      from replace_two_char [OF Some True] obtain x where
        x: "r = [92, x]" "x \<noteq> 117" "BACKSLASH x = Some c" by blast
      have "py_scanstring chunks (92 # x # t) = py_scanstring (chunks @ [c]) t"
        by (rule scan_backslash [OF x(3) x(2)])
      then show ?thesis using esc Some x(1) by (simp add: replace_def)
    next
      case False
      then have lt: "c < 0x20" and r: "r = [92, 117] @ format_04x c"
        using Some by (auto simp: ESCAPE_DCT_def split: if_splits)
      have c16: "c < 0x10000" using lt by simp
      have d: "decode_uXXXX (format_04x c @ t) = Some c" by (rule decode_format_04x [OF c16])
      have dr: "drop 4 (format_04x c @ t) = t" by (simp add: length_format_04x [OF c16])
      have "py_scanstring chunks (92 # 117 # format_04x c @ t) = py_scanstring (chunks @ [c]) t"
        by (rule scan_u_single [OF d dr]) (use lt in simp)
      then show ?thesis using esc Some r by (simp add: replace_def)
    qed
  next
    case None
    show ?thesis
    proof (cases "c < 0x10000")
      case c16: True
      have d: "decode_uXXXX (format_04x c @ t) = Some c" by (rule decode_format_04x [OF c16])
      have dr: "drop 4 (format_04x c @ t) = t" by (simp add: length_format_04x [OF c16])
      have "py_scanstring chunks (92 # 117 # format_04x c @ t) = py_scanstring (chunks @ [c]) t"
      proof (cases "0xd800 \<le> c \<and> c \<le> 0xdbff \<and> take 2 t = [92, 117]")
        case False
        show ?thesis by (rule scan_u_single [OF d dr False])
      next
        case True
        with assms(2) obtain u where u: "decode_uXXXX (drop 2 t) = Some u"
          and nl: "\<not> (0xdc00 \<le> u \<and> u \<le> 0xdfff)"
          by (auto simp: no_low_follows_def split: option.splits)
        from True have t: "t = 92 # 117 # drop 2 t"
          by (metis append_take_drop_id append_Cons append_Nil)
        have dr': "drop 4 (format_04x c @ t) = 92 # 117 # drop 2 t" using dr t by simp
        have "py_scanstring chunks (92 # 117 # format_04x c @ t) =
          (if 0xdc00 \<le> u \<and> u \<le> 0xdfff
           then py_scanstring (chunks @ [0x10000 + or (push_bit 10 (c - 0xd800)) (u - 0xdc00)])
                  (drop 4 (drop 2 t))
           else py_scanstring (chunks @ [c]) (92 # 117 # drop 2 t))"
          by (rule scan_u_pair [OF d _ _ dr' u refl]) (use True in simp_all)
        then show ?thesis using nl t by simp
      qed
      then show ?thesis using esc None c16 by (simp add: replace_def)
    next
      case False
      define n where "n = c - 0x10000"
      have n20: "n < 0x100000" using assms(1) False by (simp add: n_def)
      define hi where "hi = 0xd800 + n div 1024"
      define lo where "lo = 0xdc00 + n mod 1024"
      have hi_eq: "or 0xd800 (and (drop_bit 10 n) 0x3ff) = hi"
        using n20 by (simp add: high_surrogate hi_def)
      have lo_eq: "or 0xdc00 (and n 0x3ff) = lo"
        by (simp add: low_surrogate lo_def)
      have hi_r: "0xd800 \<le> hi" "hi \<le> 0xdbff" using n20 by (simp_all add: hi_def)
      have lo_r: "0xdc00 \<le> lo" "lo \<le> 0xdfff" by (simp_all add: lo_def)
      have hi16: "hi < 0x10000" and lo16: "lo < 0x10000" using hi_r lo_r by simp_all
      have rep: "replace c = [92, 117] @ format_04x hi @ [92, 117] @ format_04x lo"
        using None False by (simp add: replace_def Let_def n_def [symmetric] hi_eq lo_eq)
      let ?t4 = "format_04x hi @ [92, 117] @ format_04x lo @ t"
      have d1: "decode_uXXXX ?t4 = Some hi" by (rule decode_format_04x [OF hi16])
      have dr1: "drop 4 ?t4 = 92 # 117 # format_04x lo @ t"
        by (simp add: length_format_04x [OF hi16])
      have d2: "decode_uXXXX (format_04x lo @ t) = Some lo"
        by (rule decode_format_04x [OF lo16])
      have dr2: "drop 4 (format_04x lo @ t) = t"
        by (simp add: length_format_04x [OF lo16])
      have joined: "0x10000 + or (push_bit 10 (hi - 0xd800)) (lo - 0xdc00) = c"
      proof -
        have "or (push_bit 10 (n div 1024)) (n mod 1024) = n div 1024 * 1024 + n mod 1024"
          by (rule join_surrogates) simp
        then show ?thesis using False by (simp add: hi_def lo_def n_def)
      qed
      have "py_scanstring chunks (92 # 117 # ?t4) =
          (if 0xdc00 \<le> lo \<and> lo \<le> 0xdfff
           then py_scanstring (chunks @ [0x10000 + or (push_bit 10 (hi - 0xd800)) (lo - 0xdc00)]) t
           else py_scanstring (chunks @ [hi]) (92 # 117 # format_04x lo @ t))"
        by (rule scan_u_pair [OF d1 hi_r dr1 d2 dr2])
      then have "py_scanstring chunks (92 # 117 # ?t4) = py_scanstring (chunks @ [c]) t"
        using lo_r joined by simp
      then show ?thesis using esc rep by simp
    qed
  qed
qed


lemma no_low_follows_quote: "no_low_follows (34 # rest)"
  by (simp add: no_low_follows_def)

lemma no_low_follows_escaped:
  assumes "d < 0x110000" and "\<not> (0xdc00 \<le> d \<and> d \<le> 0xdfff)"
  shows "no_low_follows ((if ESCAPE_ASCII d then replace d else [d]) @ t)"
proof (cases "ESCAPE_ASCII d")
  case False
  then show ?thesis by (simp add: ESCAPE_ASCII_def no_low_follows_def)
next
  case esc: True
  show ?thesis
  proof (cases "ESCAPE_DCT d")
    case (Some r)
    show ?thesis
    proof (cases "\<not> d < 0x20 \<or> d \<in> {8, 9, 10, 12, 13}")
      case True
      from replace_two_char [OF Some True] obtain x where
        x: "r = [92, x]" "x \<noteq> 117" by blast
      then show ?thesis using esc Some by (simp add: replace_def no_low_follows_def)
    next
      case False
      then have lt: "d < 0x20" and r: "r = [92, 117] @ format_04x d"
        using Some by (auto simp: ESCAPE_DCT_def split: if_splits)
      have "decode_uXXXX (format_04x d @ t) = Some d"
        by (rule decode_format_04x) (use lt in simp)
      then show ?thesis using esc Some r assms(2) by (simp add: replace_def no_low_follows_def)
    qed
  next
    case None
    show ?thesis
    proof (cases "d < 0x10000")
      case True
      have "decode_uXXXX (format_04x d @ t) = Some d"
        by (rule decode_format_04x [OF True])
      then show ?thesis using esc None True assms(2) by (simp add: replace_def no_low_follows_def)
    next
      case False
      define n where "n = d - 0x10000"
      have n20: "n < 0x100000" using assms(1) False by (simp add: n_def)
      define hi where "hi = 0xd800 + n div 1024"
      have hi_eq: "or 0xd800 (and (drop_bit 10 n) 0x3ff) = hi"
        using n20 by (simp add: high_surrogate hi_def)
      have hi_r: "hi \<le> 0xdbff" using n20 by (simp add: hi_def)
      have "decode_uXXXX (format_04x hi @ [92, 117] @ format_04x (or 0xdc00 (and n 0x3ff)) @ t) =
          Some hi"
        by (rule decode_format_04x) (use hi_r in simp)
      then show ?thesis using esc None False hi_r
        by (simp add: replace_def Let_def n_def [symmetric] hi_eq no_low_follows_def)
    qed
  qed
qed

lemma scan_escaped_text:
  assumes "unicode_text s"
  shows "py_scanstring chunks
           (concat (map (\<lambda>c. if ESCAPE_ASCII c then replace c else [c]) s) @ 34 # rest) =
         Inr (chunks @ s, rest)"
  using assms
proof (induction s arbitrary: chunks rule: unicode_text.induct)
  case 1
  show ?case by (simp add: py_scanstring.simps(2))
next
  case (2 c)
  have "py_scanstring chunks ((if ESCAPE_ASCII c then replace c else [c]) @ 34 # rest) =
      py_scanstring (chunks @ [c]) (34 # rest)"
    by (rule scan_escaped_char) (use "2.prems" no_low_follows_quote in simp_all)
  then show ?case by (simp add: py_scanstring.simps(2))
next
  case (3 c d s)
  let ?esc = "\<lambda>c. if ESCAPE_ASCII c then replace c else [c]"
  let ?t = "concat (map ?esc (d # s)) @ 34 # rest"
  have d: "d < 0x110000" using "3.prems" by (cases s) simp_all
  have "0xd800 \<le> c \<and> c \<le> 0xdbff \<longrightarrow> no_low_follows ?t"
  proof
    assume "0xd800 \<le> c \<and> c \<le> 0xdbff"
    then have "\<not> (0xdc00 \<le> d \<and> d \<le> 0xdfff)" using "3.prems" by simp
    from no_low_follows_escaped [OF d this] show "no_low_follows ?t" by simp
  qed
  then have "py_scanstring chunks (?esc c @ ?t) = py_scanstring (chunks @ [c]) ?t"
    by (rule scan_escaped_char [rotated]) (use "3.prems" in simp)
  also have "\<dots> = Inr ((chunks @ [c]) @ d # s, rest)"
    by (rule "3.IH") (use "3.prems" in simp)
  finally show ?case by simp
qed


lemma scan_unescaped_text:
  assumes "list_all unescaped s"
  shows "py_scanstring chunks (s @ 34 # rest) = Inr (chunks @ s, rest)"
  using assms
proof (induction s arbitrary: chunks)
  case Nil
  show ?case by (simp add: py_scanstring.simps(2))
next
  case (Cons c s)
  then have "py_scanstring chunks (c # s @ 34 # rest) = py_scanstring (chunks @ [c]) (s @ 34 # rest)"
    by (intro scan_plain) (simp_all add: unescaped_def)
  then show ?case using Cons by simp
qed

text \<open>The decoder on an object with the single key \<open>key\<close> and a string literal as its value.\<close>

lemma scan_key:
  assumes "list_all unescaped key"
  shows "py_scanstring [] (key @ 34 # rest) = Inr (key, rest)"
  using scan_unescaped_text [OF assms, of "[]" rest] by simp

lemma loads_single_string:
  assumes key: "list_all unescaped key"
    and lit: "py_scanstring [] (lit @ [34, 125]) = Inr (s, [125])"
  shows "loads parse_float ([123, 34] @ key @ [34, 58, 32, 34] @ lit @ [34, 125]) =
         Inr (JDict [(key, JStr s)])"
proof -
  have v: "scan_once parse_float (34 # lit @ [34, 125]) = Inr (JStr s, [125])"
    using lit by (simp add: scan_once.simps)
  have "object_loop parse_float [] (key @ 34 # 58 # 32 # 34 # lit @ [34, 125]) =
      Inr (JDict [(key, JStr s)], [])"
    using scan_key [OF key, of "58 # 32 # 34 # lit @ [34, 125]"] v
    by (simp add: object_loop.simps [of _ _ "key @ 34 # 58 # 32 # 34 # lit @ [34, 125]"]
        skip_ws_def is_ws_def dict_of_pairs_def)
  then have "scan_once parse_float (123 # 34 # key @ 34 # 58 # 32 # 34 # lit @ [34, 125]) =
      Inr (JDict [(key, JStr s)], [])"
    by (simp add: scan_once.simps JSONObject.simps skip_ws_def is_ws_def)
  then show ?thesis
    by (simp add: loads_def decode_def skip_ws_def is_ws_def)
qed

lemma unescaped_prompt: "list_all unescaped (ustr ''prompt'')"
  by (simp add: ustr_def unescaped_def)

lemma unescaped_output: "list_all unescaped (ustr ''output'')"
  by (simp add: ustr_def unescaped_def)

lemma loads_prompt_encoded:
  assumes "unicode_text s"
  shows "loads parse_float (ustr ''{\"prompt\": '' @ py_encode_basestring_ascii s @ ustr ''}'') =
         Inr (JDict [(ustr ''prompt'', JStr s)])"
proof -
  let ?lit = "concat (map (\<lambda>c. if ESCAPE_ASCII c then replace c else [c]) s)"
  have "py_scanstring [] (?lit @ [34, 125]) = Inr (s, [125])"
    using scan_escaped_text [OF assms, of "[]" "[125]"] by simp
  from loads_single_string [OF unescaped_prompt this, of parse_float]
  show ?thesis by (simp add: ustr_def py_encode_basestring_ascii_def)
qed

lemma loads_prompt_unescaped:
  assumes "list_all unescaped s"
  shows "loads parse_float (ustr ''{\"prompt\": \"'' @ s @ ustr ''\"}'') =
         Inr (JDict [(ustr ''prompt'', JStr s)])"
proof -
  have "py_scanstring [] (s @ [34, 125]) = Inr (s, [125])"
    using scan_unescaped_text [OF assms, of "[]" "[125]"] by simp
  from loads_single_string [OF unescaped_prompt this, of parse_float]
  show ?thesis by (simp add: ustr_def)
qed

lemma loads_output_encoded:
  assumes "unicode_text s"
  shows "loads parse_float (ustr ''{\"output\": '' @ py_encode_basestring_ascii s @ ustr ''}'') =
         Inr (JDict [(ustr ''output'', JStr s)])"
proof -
  let ?lit = "concat (map (\<lambda>c. if ESCAPE_ASCII c then replace c else [c]) s)"
  have "py_scanstring [] (?lit @ [34, 125]) = Inr (s, [125])"
    using scan_escaped_text [OF assms, of "[]" "[125]"] by simp
  from loads_single_string [OF unescaped_output this, of parse_float]
  show ?thesis by (simp add: ustr_def py_encode_basestring_ascii_def)
qed

section \<open>The decoder reads back what the encoder writes\<close>
































lemma ustr_separators: "ustr '', '' = [44, 32]" "ustr '': '' = [58, 32]"
  by (simp_all add: ustr_def)





section \<open>The decoder accepts the JSON texts, the three names allowed, and no other text\<close>





















section \<open>The characters the encoder writes\<close>

lemma hexdigit_printable: "d < 16 \<Longrightarrow> printable (hexdigit d)"
  by (simp add: hexdigit_def printable_def)

lemma hex_digits_printable: "list_all printable (hex_digits n)"
proof (induction n rule: hex_digits.induct)
  case (1 n)
  show ?case
  proof (cases "n < 16")
    case True
    then show ?thesis by (simp add: hex_digits_1 hexdigit_printable)
  next
    case False
    then show ?thesis using 1 by (simp add: hex_digits_step hexdigit_printable)
  qed
qed

lemma format_04x_printable: "list_all printable (format_04x n)"
  using hex_digits_printable [of n] by (auto simp: format_04x_def list_all_iff printable_def)

lemma replace_printable: "list_all printable (replace c)"
proof (cases "ESCAPE_DCT c")
  case None
  then show ?thesis
    using format_04x_printable by (simp add: replace_def Let_def printable_def)
next
  case (Some r)
  then have "list_all printable r"
    using format_04x_printable [of c]
    by (auto simp: ESCAPE_DCT_def printable_def split: if_splits)
  then show ?thesis using Some by (simp add: replace_def)
qed

lemma escaped_char_printable:
  "list_all printable (if ESCAPE_ASCII c then replace c else [c])"
  by (simp add: replace_printable) (simp add: ESCAPE_ASCII_def printable_def)

lemma escaped_text_printable:
  "list_all printable (concat (map (\<lambda>c. if ESCAPE_ASCII c then replace c else [c]) s))"
  using escaped_char_printable by (induction s) simp_all

lemma encode_string_printable: "list_all printable (py_encode_basestring_ascii s)"
  using escaped_text_printable [of s]
  by (simp add: py_encode_basestring_ascii_def) (simp add: printable_def)





lemma list_all_weaken: "list_all P xs \<Longrightarrow> (\<And>x. P x \<Longrightarrow> Q x) \<Longrightarrow> list_all Q xs"
  by (simp add: list_all_iff)


lemma replace_non_ascii:
  assumes "128 \<le> c"
  shows "ESCAPE_ASCII c"
    and "replace c =
      (if c < 0x10000 then [92, 117] @ format_04x c
       else [92, 117] @ format_04x (0xd800 + (c - 0x10000) div 1024 mod 1024) @
            [92, 117] @ format_04x (0xdc00 + (c - 0x10000) mod 1024))"
proof -
  show "ESCAPE_ASCII c" using assms by (simp add: ESCAPE_ASCII_def)
  have "ESCAPE_DCT c = None" using assms by (simp add: ESCAPE_DCT_def)
  then show "replace c =
      (if c < 0x10000 then [92, 117] @ format_04x c
       else [92, 117] @ format_04x (0xd800 + (c - 0x10000) div 1024 mod 1024) @
            [92, 117] @ format_04x (0xdc00 + (c - 0x10000) mod 1024))"
    by (simp add: replace_def Let_def high_surrogate low_surrogate)
qed

section \<open>What a run does, by the outcome of the decoder\<close>

lemma run_decode_error:
  assumes "loads parse_float stdin = Inl e"
  shows "main parse_float floatstr stdin = (Some e, [])"
    and "run parse_float floatstr stdin = \<lparr>stdout = [], exit_status = 1\<rparr>"
  using assms by (simp_all add: main_def run_def)

lemma get_method_not_dict:
  assumes "\<And>d. v \<noteq> JDict d"
  shows "get_method v key dflt = Inl AttributeError"
  using assms by (cases v) auto

lemma run_not_dict:
  assumes "loads parse_float stdin = Inr v" and "\<And>d. v \<noteq> JDict d"
  shows "main parse_float floatstr stdin = (Some AttributeError, [])"
    and "run parse_float floatstr stdin = \<lparr>stdout = [], exit_status = 1\<rparr>"
  using assms(1) get_method_not_dict [OF assms(2)] by (simp_all add: main_def run_def)

lemma run_dict:
  assumes "loads parse_float stdin = Inr (JDict d)"
  shows "main parse_float floatstr stdin =
           (None, dumps floatstr (JDict [(ustr ''output'',
              (case map_of d (ustr ''prompt'') of Some v \<Rightarrow> v | None \<Rightarrow> JStr []))]) @ [10])"
    and "run parse_float floatstr stdin =
           \<lparr>stdout = dumps floatstr (JDict [(ustr ''output'',
              (case map_of d (ustr ''prompt'') of Some v \<Rightarrow> v | None \<Rightarrow> JStr []))]) @ [10],
            exit_status = 0\<rparr>"
  using assms by (simp_all add: main_def run_def print_def)

lemma dumps_output:
  "dumps floatstr (JDict [(ustr ''output'', v)]) =
     ustr ''{\"output\": '' @ encode floatstr v @ ustr ''}''"
  by (simp add: dumps_def ustr_def py_encode_basestring_ascii_def ESCAPE_ASCII_def)

lemma run_prompt_string:
  assumes "loads parse_float stdin = Inr (JDict [(ustr ''prompt'', JStr s)])"
  shows "run parse_float floatstr stdin =
    \<lparr>stdout = ustr ''{\"output\": '' @ py_encode_basestring_ascii s @ ustr ''}'' @ [10],
     exit_status = 0\<rparr>"
  using run_dict(2) [OF assms, of floatstr] by (simp add: dumps_output)


lemma butlast_line: "butlast (text @ [10]) = text"
  by simp


lemmas scanner_simps =
  scan_once.simps JSONObject.simps object_loop.simps JSONArray.simps array_loop.simps
  py_scanstring.simps loads_def decode_def skip_ws_def is_ws_def BACKSLASH_def
  match_number_def match_integer_def match_frac_def match_exp_def is_digit_def
  parse_int_def digits_value_def dict_of_pairs_def decode_uXXXX_def hexval_def Let_def

lemmas encoder_simps =
  dumps_def py_encode_basestring_ascii_def ESCAPE_ASCII_def replace_def ESCAPE_DCT_def
  format_04x_def hex_digits.simps hexdigit_def int_repr_def decimal_digits.simps Let_def

lemmas program_simps = main_def run_def print_def get_method.simps













section \<open>Executions of the script\<close>

text \<open>
  A configuration has at most one successor, and an exited one has none, so an
  execution can end in one configuration only; and there is an execution that ends,
  with the text and the status that \<open>run\<close> gives.
\<close>

lemma step_deterministic:
  assumes "step parse_float floatstr c c1" and "step parse_float floatstr c c2"
  shows "c1 = c2"
  using assms by (auto elim!: step.cases)

lemma exited_no_step:
  assumes "exited c"
  shows "\<not> step parse_float floatstr c c'"
  using assms by (auto simp: exited_def elim!: step.cases)

lemma unique_outcome:
  assumes "(step parse_float floatstr)\<^sup>*\<^sup>* c a" and "exited a"
    and "(step parse_float floatstr)\<^sup>*\<^sup>* c b" and "exited b"
  shows "a = b"
  using assms
proof (induction rule: converse_rtranclp_induct)
  case base
  from base(2) show ?case
  proof (cases rule: converse_rtranclpE)
    case base
    then show ?thesis by simp
  next
    case (step y)
    then show ?thesis using exited_no_step [OF base(1)] by blast
  qed
next
  case (step c c')
  from step.prems(2) show ?case
  proof (cases rule: converse_rtranclpE)
    case base
    then show ?thesis using exited_no_step [OF step.prems(3)] step.hyps(1) by blast
  next
    case (step y)
    have "y = c'" using step_deterministic [OF step(1)] \<open>step parse_float floatstr c c'\<close> by blast
    then show ?thesis using step.IH step.prems step(2) by simp
  qed
qed

lemma execution_reaches_run:
  "(step parse_float floatstr)\<^sup>*\<^sup>* (initial stdin)
     \<lparr>written = stdout (run parse_float floatstr stdin),
      control = Exited (exit_status (run parse_float floatstr stdin))\<rparr>"
proof (cases "loads parse_float stdin")
  case (Inl e)
  have "step parse_float floatstr (initial stdin) \<lparr>written = [], control = Exited 1\<rparr>"
    unfolding initial_def by (rule loads_raises [OF Inl])
  then show ?thesis using run_decode_error(2) [OF Inl, of floatstr] by simp
next
  case (Inr input_data)
  have s1: "step parse_float floatstr (initial stdin) \<lparr>written = [], control = AtGet input_data\<rparr>"
    unfolding initial_def by (rule loads_returns [OF Inr])
  show ?thesis
  proof (cases "get_method input_data (ustr ''prompt'') (JStr [])")
    case (Inl e)
    have s2: "step parse_float floatstr \<lparr>written = [], control = AtGet input_data\<rparr>
        \<lparr>written = [], control = Exited 1\<rparr>"
      by (rule get_raises [OF Inl])
    have "run parse_float floatstr stdin = \<lparr>stdout = [], exit_status = 1\<rparr>"
      using Inr Inl by (simp add: run_def main_def)
    then show ?thesis using s1 s2 by simp
  next
    case (Inr prompt)
    let ?result = "JDict [(ustr ''output'', prompt)]"
    have s2: "step parse_float floatstr \<lparr>written = [], control = AtGet input_data\<rparr>
        \<lparr>written = [], control = AtResult prompt\<rparr>"
      by (rule get_returns [OF Inr])
    have s3: "step parse_float floatstr \<lparr>written = [], control = AtResult prompt\<rparr>
        \<lparr>written = [], control = AtPrint ?result\<rparr>"
      by (rule builds_result)
    have s4: "step parse_float floatstr \<lparr>written = [], control = AtPrint ?result\<rparr>
        \<lparr>written = print (dumps floatstr ?result) [], control = AtEnd\<rparr>"
      by (rule prints)
    have s5: "step parse_float floatstr
        \<lparr>written = print (dumps floatstr ?result) [], control = AtEnd\<rparr>
        \<lparr>written = print (dumps floatstr ?result) [], control = Exited 0\<rparr>"
      by (rule ends)
    have "run parse_float floatstr stdin =
        \<lparr>stdout = print (dumps floatstr ?result) [], exit_status = 0\<rparr>"
      using \<open>loads parse_float stdin = Inr input_data\<close> Inr by (simp add: run_def main_def)
    then show ?thesis using s1 s2 s3 s4 s5 by simp
  qed
qed

lemma exited_run:
  "exited \<lparr>written = stdout (run parse_float floatstr stdin),
      control = Exited (exit_status (run parse_float floatstr stdin))\<rparr>"
  by (simp add: exited_def)

section \<open>Properties of the program\<close>

text \<open>
  C1. For every string \<open>s\<close>, on the input \<^verbatim>\<open>{"prompt": s}\<close> the program exits with status
  0 and writes exactly the line \<^verbatim>\<open>{"output": s}\<close>, with \<open>s\<close> in the encoder's escaped
  form, and a newline. The input may give \<open>s\<close> in that escaped form, or as it is between
  quotes when none of its characters needs an escape.
\<close>

theorem prompt_string_is_echoed:
  "(unicode_text s \<longrightarrow>
      run parse_float floatstr (ustr ''{\"prompt\": '' @ py_encode_basestring_ascii s @ ustr ''}'') =
        \<lparr>stdout = ustr ''{\"output\": '' @ py_encode_basestring_ascii s @ ustr ''}'' @ [10],
         exit_status = 0\<rparr>) \<and>
   (list_all unescaped s \<longrightarrow>
      run parse_float floatstr (ustr ''{\"prompt\": \"'' @ s @ ustr ''\"}'') =
        \<lparr>stdout = ustr ''{\"output\": '' @ py_encode_basestring_ascii s @ ustr ''}'' @ [10],
         exit_status = 0\<rparr>)"
  using run_prompt_string [OF loads_prompt_encoded] run_prompt_string [OF loads_prompt_unescaped]
  by blast

theorem prompt_string_is_echoed_witness:
  "unicode_text (ustr ''a\"b'') \<and> list_all unescaped (ustr ''hello world'') \<and>
   run (\<lambda>t::pystr. t) (\<lambda>x. x) (ustr ''{\"prompt\": \"a'' @ [92, 34] @ ustr ''b\"}'') =
     \<lparr>stdout = ustr ''{\"output\": \"a'' @ [92, 34] @ ustr ''b\"}'' @ [10], exit_status = 0\<rparr> \<and>
   run (\<lambda>t::pystr. t) (\<lambda>x. x) (ustr ''{\"prompt\": \"hello world\"}'') =
     \<lparr>stdout = ustr ''{\"output\": \"hello world\"}'' @ [10], exit_status = 0\<rparr>"
proof -
  have u: "unicode_text (ustr ''a\"b'')" by (simp add: ustr_def)
  have e: "py_encode_basestring_ascii (ustr ''a\"b'') = ustr ''\"a'' @ [92, 34] @ ustr ''b\"''"
    by (simp add: ustr_def encoder_simps)
  have p: "list_all unescaped (ustr ''hello world'')" by (simp add: ustr_def unescaped_def)
  have e': "py_encode_basestring_ascii (ustr ''hello world'') = ustr ''\"hello world\"''"
    by (simp add: ustr_def encoder_simps)
  from prompt_string_is_echoed [of "ustr ''a\"b''" "\<lambda>t::pystr. t" "\<lambda>x. x"] u
  have "run (\<lambda>t::pystr. t) (\<lambda>x. x)
          (ustr ''{\"prompt\": '' @ py_encode_basestring_ascii (ustr ''a\"b'') @ ustr ''}'') =
        \<lparr>stdout = ustr ''{\"output\": '' @ py_encode_basestring_ascii (ustr ''a\"b'') @ ustr ''}'' @ [10],
         exit_status = 0\<rparr>" by blast
  moreover from prompt_string_is_echoed [of "ustr ''hello world''" "\<lambda>t::pystr. t" "\<lambda>x. x"] p
  have "run (\<lambda>t::pystr. t) (\<lambda>x. x) (ustr ''{\"prompt\": \"'' @ ustr ''hello world'' @ ustr ''\"}'') =
        \<lparr>stdout = ustr ''{\"output\": '' @ py_encode_basestring_ascii (ustr ''hello world'') @
           ustr ''}'' @ [10], exit_status = 0\<rparr>" by blast
  ultimately show ?thesis using u p unfolding e e' by (simp add: ustr_def)
qed




text \<open>
  C3. On the input \<^verbatim>\<open>{}\<close>, an object with no key \<^verbatim>\<open>"prompt"\<close>, the program exits with
  status 0 and writes the line \<^verbatim>\<open>{"output": ""}\<close>: the missing key gives the
  empty string, not \<^verbatim>\<open>null\<close>, an error or an object without the key.
\<close>

theorem empty_object_gives_empty_string:
  "run parse_float floatstr (ustr ''{}'') =
     \<lparr>stdout = ustr ''{\"output\": \"\"}'' @ [10], exit_status = 0\<rparr>"
  by (simp add: ustr_def scanner_simps encoder_simps program_simps)




text \<open>
  C5. When the decoder returns a value that is not an object (a list, a string, a number,
  a boolean or \<^verbatim>\<open>None\<close>), the lookup \<^verbatim>\<open>input_data.get\<close> raises \<^verbatim>\<open>AttributeError\<close>,
  nothing catches it, and the process exits with a status other than 0.
\<close>

theorem non_object_input_aborts:
  assumes "loads parse_float stdin = Inr v" and "\<And>d. v \<noteq> JDict d"
  shows "main parse_float floatstr stdin = (Some AttributeError, []) \<and>
         exit_status (run parse_float floatstr stdin) \<noteq> 0"
  using run_not_dict [OF assms, of floatstr] by simp

theorem non_object_input_aborts_witness:
  "loads (\<lambda>t::pystr. t) (ustr ''[1,2,3]'') = Inr (JList [JInt 1, JInt 2, JInt 3]) \<and>
   main (\<lambda>t::pystr. t) (\<lambda>x. x) (ustr ''[1,2,3]'') = (Some AttributeError, []) \<and>
   exit_status (run (\<lambda>t::pystr. t) (\<lambda>x. x) (ustr ''[1,2,3]'')) = 1"
proof -
  have l: "loads (\<lambda>t::pystr. t) (ustr ''[1,2,3]'') = Inr (JList [JInt 1, JInt 2, JInt 3])"
    by (simp add: ustr_def scanner_simps)
  have "main (\<lambda>t::pystr. t) (\<lambda>x. x) (ustr ''[1,2,3]'') = (Some AttributeError, [])"
    using non_object_input_aborts [OF l, of "\<lambda>x. x"] by simp
  then show ?thesis using l by (simp add: run_def)
qed



text \<open>
  C7. Two executions of the script on the same standard input that reach the end of the
  process reach it with the same text written to standard output and the same exit
  status, those that \<open>run\<close> gives for that input: nothing but the input decides
  what a run writes.
\<close>

theorem same_input_same_outcome:
  assumes "(step parse_float floatstr)\<^sup>*\<^sup>* (initial stdin) c" and "exited c"
    and "(step parse_float floatstr)\<^sup>*\<^sup>* (initial stdin') c'" and "exited c'"
    and "stdin = stdin'"
  shows "written c = written c' \<and> control c = control c' \<and>
         written c = stdout (run parse_float floatstr stdin) \<and>
         control c = Exited (exit_status (run parse_float floatstr stdin))"
proof -
  have "c = c'" using unique_outcome [OF assms(1,2)] assms(3,4,5) by simp
  moreover have "c = \<lparr>written = stdout (run parse_float floatstr stdin),
      control = Exited (exit_status (run parse_float floatstr stdin))\<rparr>"
    by (rule unique_outcome [OF assms(1,2) execution_reaches_run exited_run])
  ultimately show ?thesis by (metis config.select_convs(1) config.select_convs(2))
qed

theorem same_input_same_outcome_witness:
  "(step (\<lambda>t::pystr. t) (\<lambda>x. x))\<^sup>*\<^sup>* (initial (ustr ''{\"prompt\": 7}''))
     \<lparr>written = ustr ''{\"output\": 7}'' @ [10], control = Exited 0\<rparr> \<and>
   exited \<lparr>written = ustr ''{\"output\": 7}'' @ [10], control = Exited 0 :: pystr control\<rparr> \<and>
   (step (\<lambda>t::pystr. t) (\<lambda>x. x))\<^sup>*\<^sup>* (initial (ustr ''{\"prompt\"'' @ ustr '': 7}''))
     \<lparr>written = stdout (run (\<lambda>t::pystr. t) (\<lambda>x. x) (ustr ''{\"prompt\"'' @ ustr '': 7}'')),
      control = Exited (exit_status (run (\<lambda>t::pystr. t) (\<lambda>x. x) (ustr ''{\"prompt\"'' @ ustr '': 7}'')))\<rparr> \<and>
   exited \<lparr>written = stdout (run (\<lambda>t::pystr. t) (\<lambda>x. x) (ustr ''{\"prompt\"'' @ ustr '': 7}'')),
      control = Exited (exit_status (run (\<lambda>t::pystr. t) (\<lambda>x. x) (ustr ''{\"prompt\"'' @ ustr '': 7}''))) :: pystr control\<rparr> \<and>
   ustr ''{\"prompt\": 7}'' = ustr ''{\"prompt\"'' @ ustr '': 7}'' \<and>
   stdout (run (\<lambda>t::pystr. t) (\<lambda>x. x) (ustr ''{\"prompt\"'' @ ustr '': 7}'')) =
     ustr ''{\"output\": 7}'' @ [10] \<and>
   exit_status (run (\<lambda>t::pystr. t) (\<lambda>x. x) (ustr ''{\"prompt\"'' @ ustr '': 7}'')) = 0"
proof -
  let ?pf = "\<lambda>t::pystr. t" and ?fr = "\<lambda>x::pystr. x"
  let ?in = "ustr ''{\"prompt\": 7}''" and ?in' = "ustr ''{\"prompt\"'' @ ustr '': 7}''"
  let ?c = "\<lparr>written = ustr ''{\"output\": 7}'' @ [10], control = Exited 0 :: pystr control\<rparr>"
  let ?c' = "\<lparr>written = stdout (run ?pf ?fr ?in'),
      control = Exited (exit_status (run ?pf ?fr ?in'))\<rparr>"
  have l: "loads ?pf ?in = Inr (JDict [(ustr ''prompt'', JInt 7)])"
    by (simp add: ustr_def scanner_simps)
  have g: "get_method (JDict [(ustr ''prompt'', JInt 7 :: pystr json)]) (ustr ''prompt'') (JStr []) =
      Inr (JInt 7)" by simp
  have p: "print (dumps ?fr (JDict [(ustr ''output'', JInt 7)])) [] = ustr ''{\"output\": 7}'' @ [10]"
    by (simp add: ustr_def encoder_simps print_def)
  have "step ?pf ?fr (initial ?in) \<lparr>written = [], control = AtGet (JDict [(ustr ''prompt'', JInt 7)])\<rparr>"
    unfolding initial_def by (rule loads_returns [OF l])
  moreover have "step ?pf ?fr \<lparr>written = [], control = AtGet (JDict [(ustr ''prompt'', JInt 7)])\<rparr>
      \<lparr>written = [], control = AtResult (JInt 7)\<rparr>"
    by (rule get_returns [OF g])
  moreover have "step ?pf ?fr \<lparr>written = [], control = AtResult (JInt 7)\<rparr>
      \<lparr>written = [], control = AtPrint (JDict [(ustr ''output'', JInt 7)])\<rparr>"
    by (rule builds_result)
  moreover have "step ?pf ?fr \<lparr>written = [], control = AtPrint (JDict [(ustr ''output'', JInt 7)])\<rparr>
      \<lparr>written = ustr ''{\"output\": 7}'' @ [10], control = AtEnd\<rparr>"
    using prints [of ?pf ?fr "[]" "JDict [(ustr ''output'', JInt 7)]"] unfolding p .
  moreover have "step ?pf ?fr \<lparr>written = ustr ''{\"output\": 7}'' @ [10], control = AtEnd\<rparr> ?c"
    by (rule ends)
  ultimately have r: "(step ?pf ?fr)\<^sup>*\<^sup>* (initial ?in) ?c" by simp
  have e: "exited ?c" by (simp add: exited_def)
  have r': "(step ?pf ?fr)\<^sup>*\<^sup>* (initial ?in') ?c'" by (rule execution_reaches_run)
  have e': "exited ?c'" by (simp add: exited_def)
  have eq: "?in = ?in'" by (simp add: ustr_def)
  from same_input_same_outcome [OF r e r' e' eq]
  have "ustr ''{\"output\": 7}'' @ [10] = stdout (run ?pf ?fr ?in')"
    and "Exited 0 = Exited (exit_status (run ?pf ?fr ?in'))"
    by simp_all
  then have "stdout (run ?pf ?fr ?in') = ustr ''{\"output\": 7}'' @ [10]"
    and "exit_status (run ?pf ?fr ?in') = 0" by simp_all
  with r e r' e' eq show ?thesis by (intro conjI)
qed

text \<open>
  C8. On the input \<^verbatim>\<open>{"prompt": null}\<close> the program writes \<^verbatim>\<open>{"output": null}\<close>: the
  empty string stands for a missing key only, not for a key whose value is \<^verbatim>\<open>null\<close>.
\<close>

theorem null_prompt_gives_null:
  "run parse_float floatstr (ustr ''{\"prompt\": null}'') =
     \<lparr>stdout = ustr ''{\"output\": null}'' @ [10], exit_status = 0\<rparr>"
  by (simp add: ustr_def scanner_simps encoder_simps program_simps)

text \<open>
  C9. Two inputs that decode to objects with the same value under \<^verbatim>\<open>"prompt"\<close>, or both
  without that key, give the same run, whatever other keys the objects have.
\<close>

theorem other_keys_are_ignored:
  assumes "loads parse_float stdin = Inr (JDict d)"
    and "loads parse_float stdin' = Inr (JDict d')"
    and "map_of d (ustr ''prompt'') = map_of d' (ustr ''prompt'')"
  shows "run parse_float floatstr stdin = run parse_float floatstr stdin'"
  using run_dict(2) [OF assms(1), of floatstr] run_dict(2) [OF assms(2), of floatstr] assms(3)
  by simp

theorem other_keys_are_ignored_witness:
  "run (\<lambda>t::pystr. t) (\<lambda>x. x) (ustr ''{\"prompt\": 1, \"x\": 2}'') =
   run (\<lambda>t::pystr. t) (\<lambda>x. x) (ustr ''{\"y\": [], \"prompt\": 1}'')"
proof -
  have l1: "loads (\<lambda>t::pystr. t) (ustr ''{\"prompt\": 1, \"x\": 2}'') =
      Inr (JDict [(ustr ''prompt'', JInt 1), (ustr ''x'', JInt 2)])"
    by (simp add: ustr_def scanner_simps)
  have l2: "loads (\<lambda>t::pystr. t) (ustr ''{\"y\": [], \"prompt\": 1}'') =
      Inr (JDict [(ustr ''y'', JList []), (ustr ''prompt'', JInt 1)])"
    by (simp add: ustr_def scanner_simps)
  have m: "map_of [(ustr ''prompt'', JInt 1), (ustr ''x'', JInt 2 :: pystr json)] (ustr ''prompt'') =
      map_of [(ustr ''y'', JList []), (ustr ''prompt'', JInt 1)] (ustr ''prompt'')"
    by (simp add: ustr_def)
  show ?thesis by (rule other_keys_are_ignored [OF l1 l2 m])
qed

text \<open>
  C10. When the value of \<^verbatim>\<open>"prompt"\<close> is a string \<open>s\<close>, every character written to
  standard output is ASCII. The line is \<^verbatim>\<open>{"output": "\<close>, the pieces that the encoder
  writes for the characters of \<open>s\<close>, and \<^verbatim>\<open>"}\<close>; the piece for a character from 128 on
  is the escape \<^verbatim>\<open>\uXXXX\<close> of its code point, or the two escapes of its surrogate pair
  when it lies beyond \<^verbatim>\<open>0xFFFF\<close>. The decoder reads the line back as the object that
  maps \<^verbatim>\<open>"output"\<close> to \<open>s\<close>.
\<close>

theorem non_ascii_is_escaped:
  assumes "loads parse_float stdin = Inr (JDict d)"
    and "map_of d (ustr ''prompt'') = Some (JStr s)"
  shows "list_all (\<lambda>c. c < 128) (stdout (run parse_float floatstr stdin)) \<and>
         stdout (run parse_float floatstr stdin) =
           ustr ''{\"output\": \"'' @
           concat (map (\<lambda>c. if ESCAPE_ASCII c then replace c else [c]) s) @
           ustr ''\"}'' @ [10] \<and>
         list_all (\<lambda>c. 128 \<le> c \<longrightarrow>
             (if ESCAPE_ASCII c then replace c else [c]) =
               (if c < 0x10000 then [92, 117] @ format_04x c
                else [92, 117] @ format_04x (0xd800 + (c - 0x10000) div 1024 mod 1024) @
                     [92, 117] @ format_04x (0xdc00 + (c - 0x10000) mod 1024))) s \<and>
         (unicode_text s \<longrightarrow>
            loads parse_float' (butlast (stdout (run parse_float floatstr stdin))) =
              Inr (JDict [(ustr ''output'', JStr s)]))"
proof -
  have out: "stdout (run parse_float floatstr stdin) =
      ustr ''{\"output\": '' @ py_encode_basestring_ascii s @ ustr ''}'' @ [10]"
    using run_dict(2) [OF assms(1), of floatstr] assms(2) by (simp add: dumps_output)
  have "list_all printable (py_encode_basestring_ascii s)" by (rule encode_string_printable)
  then have "list_all (\<lambda>c. c < 128) (py_encode_basestring_ascii s)"
    by (rule list_all_weaken) (simp add: printable_def)
  then have ascii: "list_all (\<lambda>c. c < 128) (stdout (run parse_float floatstr stdin))"
    unfolding out by (simp add: ustr_def)
  have shape: "stdout (run parse_float floatstr stdin) =
      ustr ''{\"output\": \"'' @
      concat (map (\<lambda>c. if ESCAPE_ASCII c then replace c else [c]) s) @ ustr ''\"}'' @ [10]"
    unfolding out by (simp add: ustr_def py_encode_basestring_ascii_def)
  have esc: "list_all (\<lambda>c. 128 \<le> c \<longrightarrow>
      (if ESCAPE_ASCII c then replace c else [c]) =
        (if c < 0x10000 then [92, 117] @ format_04x c
         else [92, 117] @ format_04x (0xd800 + (c - 0x10000) div 1024 mod 1024) @
              [92, 117] @ format_04x (0xdc00 + (c - 0x10000) mod 1024))) s"
    unfolding list_all_iff using replace_non_ascii by simp
  have "loads parse_float' (butlast (stdout (run parse_float floatstr stdin))) =
      Inr (JDict [(ustr ''output'', JStr s)])" if "unicode_text s"
  proof -
    have "butlast (stdout (run parse_float floatstr stdin)) =
        ustr ''{\"output\": '' @ py_encode_basestring_ascii s @ ustr ''}''"
      unfolding out
      using butlast_line [of "ustr ''{\"output\": '' @ py_encode_basestring_ascii s @ ustr ''}''"]
      by simp
    then show ?thesis using loads_output_encoded [OF that, of parse_float'] by simp
  qed
  with ascii shape esc show ?thesis by blast
qed

theorem non_ascii_is_escaped_witness:
  "stdout (run (\<lambda>t::pystr. t) (\<lambda>x. x) (ustr ''{\"prompt\": \"'' @ [233, 0x1F600] @ ustr ''\"}'')) =
     ustr ''{\"output\": \"'' @ [92] @ ustr ''u00e9'' @ [92] @ ustr ''ud83d'' @ [92] @
     ustr ''ude00\"}'' @ [10] \<and>
   list_all (\<lambda>c. c < 128)
     (stdout (run (\<lambda>t::pystr. t) (\<lambda>x. x) (ustr ''{\"prompt\": \"'' @ [233, 0x1F600] @ ustr ''\"}''))) \<and>
   loads (\<lambda>t::pystr. t)
     (butlast (stdout (run (\<lambda>t::pystr. t) (\<lambda>x. x)
        (ustr ''{\"prompt\": \"'' @ [233, 0x1F600] @ ustr ''\"}'')))) =
     Inr (JDict [(ustr ''output'', JStr [233, 0x1F600])])"
proof -
  let ?in = "ustr ''{\"prompt\": \"'' @ [233, 0x1F600] @ ustr ''\"}''"
  let ?d = "[(ustr ''prompt'', JStr [233, 0x1F600 :: nat] :: pystr json)]"
  have l: "loads (\<lambda>t::pystr. t) ?in = Inr (JDict ?d)"
    by (simp add: ustr_def scanner_simps)
  have m: "map_of ?d (ustr ''prompt'') = Some (JStr [233, 0x1F600])"
    by simp
  have u: "unicode_text [233, 0x1F600]" by simp
  from non_ascii_is_escaped [OF l m, of "\<lambda>x. x" "\<lambda>t::pystr. t"] u
  have a: "list_all (\<lambda>c. c < 128) (stdout (run (\<lambda>t::pystr. t) (\<lambda>x. x) ?in))"
    and b: "stdout (run (\<lambda>t::pystr. t) (\<lambda>x. x) ?in) =
           ustr ''{\"output\": \"'' @
           concat (map (\<lambda>c. if ESCAPE_ASCII c then replace c else [c]) [233, 0x1F600]) @
           ustr ''\"}'' @ [10]"
    and c: "loads (\<lambda>t::pystr. t) (butlast (stdout (run (\<lambda>t::pystr. t) (\<lambda>x. x) ?in))) =
              Inr (JDict [(ustr ''output'', JStr [233, 0x1F600])])"
    by blast+
  have k: "concat (map (\<lambda>c. if ESCAPE_ASCII c then replace c else [c]) [233, 0x1F600]) =
      [92] @ ustr ''u00e9'' @ [92] @ ustr ''ud83d'' @ [92] @ ustr ''ude00''"
    by (simp add: ustr_def encoder_simps replicate_upto_3)
  have "stdout (run (\<lambda>t::pystr. t) (\<lambda>x. x) ?in) =
      ustr ''{\"output\": \"'' @
      ([92] @ ustr ''u00e9'' @ [92] @ ustr ''ud83d'' @ [92] @ ustr ''ude00'') @
      ustr ''\"}'' @ [10]"
    using b unfolding k .
  then have "stdout (run (\<lambda>t::pystr. t) (\<lambda>x. x) ?in) =
      ustr ''{\"output\": \"'' @ [92] @ ustr ''u00e9'' @ [92] @ ustr ''ud83d'' @ [92] @
      ustr ''ude00\"}'' @ [10]"
    by (simp add: ustr_def)
  with a c show ?thesis by (intro conjI)
qed

end
